theory Spec2Isabelle
  imports Complex_Main "HOL-Library.Monad_Syntax" "HOL-Library.Word"
begin

section \<open>JavaScript values\<close>

text \<open>
  The services are TypeScript/JavaScript. A \<open>number\<close> is either a finite value, one of the
  two infinities, or NaN. Finite values are modelled as reals: rounding to 64-bit doubles
  and the sign of zero are not modelled (page numbers, sequence numbers and counts are
  small integers, on which double arithmetic is exact).
\<close>

datatype jsnumber = Fin real | PosInf | NegInf | NaN

text \<open>The relational operator \<open>a < b\<close>: every comparison with NaN is false.\<close>

fun js_lt :: "jsnumber \<Rightarrow> jsnumber \<Rightarrow> bool" where
  "js_lt NaN _ = False"
| "js_lt _ NaN = False"
| "js_lt (Fin a) (Fin b) = (a < b)"
| "js_lt _ NegInf = False"
| "js_lt NegInf _ = True"
| "js_lt PosInf _ = False"
| "js_lt (Fin a) PosInf = True"

text \<open>\<open>a <= b\<close> and \<open>a >= b\<close>.\<close>

definition js_le :: "jsnumber \<Rightarrow> jsnumber \<Rightarrow> bool" where
  "js_le a b = (a \<noteq> NaN \<and> b \<noteq> NaN \<and> \<not> js_lt b a)"

definition js_ge :: "jsnumber \<Rightarrow> jsnumber \<Rightarrow> bool" where
  "js_ge a b = js_le b a"

fun js_add :: "jsnumber \<Rightarrow> jsnumber \<Rightarrow> jsnumber" where
  "js_add NaN _ = NaN"
| "js_add _ NaN = NaN"
| "js_add (Fin a) (Fin b) = Fin (a + b)"
| "js_add PosInf NegInf = NaN"
| "js_add NegInf PosInf = NaN"
| "js_add PosInf _ = PosInf"
| "js_add NegInf _ = NegInf"
| "js_add (Fin a) b = b"

fun js_mul :: "jsnumber \<Rightarrow> jsnumber \<Rightarrow> jsnumber" where
  "js_mul NaN _ = NaN"
| "js_mul _ NaN = NaN"
| "js_mul (Fin a) (Fin b) = Fin (a * b)"
| "js_mul (Fin a) PosInf = (if a = 0 then NaN else if 0 < a then PosInf else NegInf)"
| "js_mul (Fin a) NegInf = (if a = 0 then NaN else if 0 < a then NegInf else PosInf)"
| "js_mul PosInf (Fin b) = (if b = 0 then NaN else if 0 < b then PosInf else NegInf)"
| "js_mul NegInf (Fin b) = (if b = 0 then NaN else if 0 < b then NegInf else PosInf)"
| "js_mul PosInf PosInf = PosInf"
| "js_mul NegInf NegInf = PosInf"
| "js_mul PosInf NegInf = NegInf"
| "js_mul NegInf PosInf = NegInf"

text \<open>Division: a finite non-zero value over zero is an infinity, zero over zero is NaN.\<close>

fun js_div :: "jsnumber \<Rightarrow> jsnumber \<Rightarrow> jsnumber" where
  "js_div NaN _ = NaN"
| "js_div _ NaN = NaN"
| "js_div (Fin a) (Fin b) =
     (if b = 0 then (if a = 0 then NaN else if 0 < a then PosInf else NegInf)
      else Fin (a / b))"
| "js_div (Fin a) _ = Fin 0"
| "js_div PosInf (Fin b) = (if 0 \<le> b then PosInf else NegInf)"
| "js_div NegInf (Fin b) = (if 0 \<le> b then NegInf else PosInf)"
| "js_div _ _ = NaN"

text \<open>\<open>Math.floor\<close> and \<open>Math.max\<close> of two arguments.\<close>

fun Math_floor :: "jsnumber \<Rightarrow> jsnumber" where
  "Math_floor (Fin a) = Fin (of_int \<lfloor>a\<rfloor>)"
| "Math_floor x = x"

definition Math_max :: "jsnumber \<Rightarrow> jsnumber \<Rightarrow> jsnumber" where
  "Math_max a b = (if a = NaN \<or> b = NaN then NaN else if js_lt a b then b else a)"

text \<open>
  A JavaScript value. An object is the list of its own properties in insertion order;
  reading a property takes the first entry with that key.
\<close>

datatype jsval =
    Undefined
  | Null
  | Bool bool
  | Number jsnumber
  | Str string
  | Arr "jsval list"
  | Obj "(string \<times> jsval) list"

text \<open>ToBoolean, as applied by \<open>!x\<close>, \<open>x || y\<close> and \<open>if (x)\<close>.\<close>

fun truthy_number :: "jsnumber \<Rightarrow> bool" where
  "truthy_number (Fin a) = (a \<noteq> 0)"
| "truthy_number NaN = False"
| "truthy_number _ = True"

fun truthy :: "jsval \<Rightarrow> bool" where
  "truthy Undefined = False"
| "truthy Null = False"
| "truthy (Bool b) = b"
| "truthy (Number n) = truthy_number n"
| "truthy (Str s) = (s \<noteq> [])"
| "truthy (Arr _) = True"
| "truthy (Obj _) = True"

fun typeof :: "jsval \<Rightarrow> string" where
  "typeof Undefined = ''undefined''"
| "typeof Null = ''object''"
| "typeof (Bool _) = ''boolean''"
| "typeof (Number _) = ''number''"
| "typeof (Str _) = ''string''"
| "typeof (Arr _) = ''object''"
| "typeof (Obj _) = ''object''"

section \<open>Page-mapping index (pdfPageMapper.ts)\<close>

text \<open>
  The module holds one \<open>Map<string, number>\<close>. The state also records the warnings written
  to the console, so that a rejected call is visible in the model.
\<close>

datatype warning = InvalidPageNumber jsnumber | InvalidFunctionPUI

record mapper_state =
  pageMappings :: "string \<rightharpoonup> jsnumber"
  console :: "warning list"

record PageMapping =
  functionPUI :: jsval
  pageNumber :: jsnumber

definition setPageMapping :: "jsval \<Rightarrow> jsnumber \<Rightarrow> mapper_state \<Rightarrow> mapper_state" where
  "setPageMapping pui page st =
     (if js_lt page (Fin 1) then
        st\<lparr>console := console st @ [InvalidPageNumber page]\<rparr>
      else if \<not> truthy pui \<or> typeof pui \<noteq> ''string'' then
        st\<lparr>console := console st @ [InvalidFunctionPUI]\<rparr>
      else (case pui of
              Str k \<Rightarrow> st\<lparr>pageMappings := (pageMappings st)(k \<mapsto> page)\<rparr>
            | _ \<Rightarrow> st))"

text \<open>\<open>pageMappings.get(functionPUI) || null\<close>: a missing key and a falsy value both give null.\<close>

definition getPageMapping :: "string \<Rightarrow> mapper_state \<Rightarrow> jsnumber option" where
  "getPageMapping pui st =
     (case pageMappings st pui of
        None \<Rightarrow> None
      | Some v \<Rightarrow> if truthy_number v then Some v else None)"

definition removePageMapping :: "string \<Rightarrow> mapper_state \<Rightarrow> mapper_state" where
  "removePageMapping pui st = st\<lparr>pageMappings := (pageMappings st)(pui := None)\<rparr>"

definition clearAllPageMappings :: "mapper_state \<Rightarrow> mapper_state" where
  "clearAllPageMappings st = st\<lparr>pageMappings := Map.empty\<rparr>"

definition loadPageMappings :: "PageMapping list \<Rightarrow> mapper_state \<Rightarrow> mapper_state" where
  "loadPageMappings mappings st =
     foldl (\<lambda>s m. setPageMapping (functionPUI m) (pageNumber m) s)
       (clearAllPageMappings st) mappings"

text \<open>
  \<open>estimatePageNumber(sequence, totalFunctions, totalPages?)\<close>; an omitted \<open>totalPages\<close>
  is \<open>None\<close>.
\<close>

definition estimatePageNumber :: "jsnumber \<Rightarrow> jsnumber \<Rightarrow> jsnumber option \<Rightarrow> jsnumber" where
  "estimatePageNumber sequence totalFunctions totalPages =
     (if sequence = Fin 0 then Fin 1
      else case (case totalPages of
                   None \<Rightarrow> None
                 | Some t \<Rightarrow> if truthy_number t then Some t else None) of
        Some t \<Rightarrow>
          (let pagesPerFunction = Math_floor (js_div t totalFunctions)
           in Math_max (Fin 1) (js_add (Fin 1) (js_mul sequence pagesPerFunction)))
      | None \<Rightarrow>
          (let defaultPagesPerFunction = Fin 3
           in js_add (Fin 1) (js_mul sequence defaultPagesPerFunction)))"

text \<open>The module starts with an empty map and nothing written to the console.\<close>

definition initialState :: mapper_state where
  "initialState = \<lparr>pageMappings = Map.empty, console = []\<rparr>"

text \<open>The invariant of the store: every page number it holds is at least 1.\<close>

definition pageInvariant :: "mapper_state \<Rightarrow> bool" where
  "pageInvariant st = (\<forall>k v. pageMappings st k = Some v \<longrightarrow> js_ge v (Fin 1))"

text \<open>
  Validation as the documentation words it: the identifier is a non-empty string and the
  page number is at least 1.
\<close>

definition passesValidation :: "PageMapping \<Rightarrow> bool" where
  "passesValidation m =
     ((case functionPUI m of Str s \<Rightarrow> s \<noteq> [] | _ \<Rightarrow> False) \<and> js_ge (pageNumber m) (Fin 1))"

text \<open>
  The page number of the last entry of a list that passes validation and carries the
  identifier \<open>k\<close>, if there is one.
\<close>

fun lastValidPage :: "PageMapping list \<Rightarrow> string \<Rightarrow> jsnumber option" where
  "lastValidPage [] k = None"
| "lastValidPage (m # ms) k =
     (case lastValidPage ms k of
        Some p \<Rightarrow> Some p
      | None \<Rightarrow> if passesValidation m \<and> functionPUI m = Str k then Some (pageNumber m) else None)"

section \<open>Identifier service (uuidGenerator.ts)\<close>

text \<open>
  \<open>crypto.randomUUID()\<close> belongs to the platform. It is modelled as the formatting of
  128 random bits as a version-4 UUID: 32 lowercase hexadecimal digits in groups of
  8-4-4-4-12, the first digit of the third group being 4 and the first digit of the fourth
  group one of 8, 9, a, b. The random bits are the parameter \<open>r\<close>.
\<close>

definition hexDigitLower :: "nat \<Rightarrow> char" where
  "hexDigitLower n = ''0123456789abcdef'' ! (n mod 16)"

definition nibble :: "128 word \<Rightarrow> nat \<Rightarrow> nat" where
  "nibble r i = (unat r div 16 ^ (31 - i)) mod 16"

definition hexGroup :: "128 word \<Rightarrow> nat \<Rightarrow> nat \<Rightarrow> string" where
  "hexGroup r i n = map (\<lambda>k. hexDigitLower (nibble r k)) [i ..< i + n]"

definition randomUUID :: "128 word \<Rightarrow> string" where
  "randomUUID r =
     hexGroup r 0 8 @ ''-'' @ hexGroup r 8 4 @ ''-''
     @ CHR ''4'' # hexGroup r 13 3 @ ''-''
     @ hexDigitLower (8 + nibble r 16 mod 4) # hexGroup r 17 3 @ ''-''
     @ hexGroup r 20 12"

text \<open>
  \<open>toUpperCase()\<close>, on the characters \<open>randomUUID\<close> can produce (ASCII letters are
  mapped, every other character is kept).
\<close>

definition toUpperChar :: "char \<Rightarrow> char" where
  "toUpperChar c =
     (case map_of (zip ''abcdefghijklmnopqrstuvwxyz'' ''ABCDEFGHIJKLMNOPQRSTUVWXYZ'') c of
        Some u \<Rightarrow> u
      | None \<Rightarrow> c)"

definition toUpperCase :: "string \<Rightarrow> string" where
  "toUpperCase s = map toUpperChar s"

text \<open>
  \<open>generateMOXUUID\<close>: the upper-cased UUID between braces.
\<close>

definition generateMOXUUID :: "128 word \<Rightarrow> string" where
  "generateMOXUUID r = (let uuid = toUpperCase (randomUUID r) in ''{'' @ uuid @ ''}'')"

text \<open>
  The pattern of \<open>isValidMOXUUID\<close> is a sequence of literal characters and counted
  repetitions of the class \<open>[0-9A-F]\<close>, anchored at both ends (\<open>$\<close> without the
  multiline flag matches at the end of the input only). \<open>matchItems\<close> matches such a
  sequence against the whole string.
\<close>

datatype regex_item = Chr char | HexUpper nat

definition isHexUpper :: "char \<Rightarrow> bool" where
  "isHexUpper c = (c \<in> set ''0123456789ABCDEF'')"

fun matchItems :: "regex_item list \<Rightarrow> string \<Rightarrow> bool" where
  "matchItems [] s = (s = [])"
| "matchItems (Chr c # ps) s = (case s of [] \<Rightarrow> False | x # xs \<Rightarrow> x = c \<and> matchItems ps xs)"
| "matchItems (HexUpper n # ps) s =
     (n \<le> length s \<and> list_all isHexUpper (take n s) \<and> matchItems ps (drop n s))"

definition moxPattern :: "regex_item list" where
  "moxPattern =
     [Chr CHR ''{'', HexUpper 8, Chr CHR ''-'', HexUpper 4, Chr CHR ''-'', HexUpper 4,
      Chr CHR ''-'', HexUpper 4, Chr CHR ''-'', HexUpper 12, Chr CHR ''}'']"

definition isValidMOXUUID :: "string \<Rightarrow> bool" where
  "isValidMOXUUID uuid = matchItems moxPattern uuid"

definition generateNullUUID :: string where
  "generateNullUUID = ''{00000000-0000-0000-0000-000000000000}''"

text \<open>
  The grammar in words: an opening brace, groups of 8, 4, 4, 4 and 12 uppercase
  hexadecimal digits separated by hyphens, a closing brace.
\<close>

definition moxGrammar :: "string \<Rightarrow> bool" where
  "moxGrammar s \<longleftrightarrow>
     (\<exists>g1 g2 g3 g4 g5.
        s = ''{'' @ g1 @ ''-'' @ g2 @ ''-'' @ g3 @ ''-'' @ g4 @ ''-'' @ g5 @ ''}''
        \<and> length g1 = 8 \<and> length g2 = 4 \<and> length g3 = 4 \<and> length g4 = 4 \<and> length g5 = 12
        \<and> list_all isHexUpper (g1 @ g2 @ g3 @ g4 @ g5))"

section \<open>Line indexer\<close>

text \<open>
  Strings are lists of characters; a character stands for one UTF-16 code unit of the
  source text (the tag, the line terminators and the white space that matter here are all
  ASCII). An index entry is the object \<open>{name, lineNumber, columnStart}\<close>.
\<close>

record FunctionEntry =
  name :: string
  lineNumber :: nat
  columnStart :: nat

datatype js_error = TypeError

text \<open>\<open>s.indexOf(c, from)\<close> for a one-character needle: \<open>None\<close> stands for -1.\<close>

definition indexOf :: "string \<Rightarrow> char \<Rightarrow> nat \<Rightarrow> nat option" where
  "indexOf s c from =
     (let k = length (takeWhile (\<lambda>x. x \<noteq> c) (drop from s))
      in if from + k < length s then Some (from + k) else None)"

text \<open>
  \<open>s.substring(start, end)\<close> for \<open>start \<le> end\<close>, and \<open>s.endsWith(c)\<close>.
\<close>

definition substring :: "string \<Rightarrow> nat \<Rightarrow> nat \<Rightarrow> string" where
  "substring s start end = take (end - start) (drop start s)"

definition endsWith :: "string \<Rightarrow> char \<Rightarrow> bool" where
  "endsWith s c = (s \<noteq> [] \<and> last s = c)"

text \<open>
  The regular expression \<open><functionname>([^<]+)</functionname>\<close>. At a given
  position it matches when the opening tag is there, followed by at least one character
  other than \<open><\<close>, followed by the closing tag. The group \<open>[^<]+\<close> is greedy and the
  closing tag starts with \<open><\<close>, so the group can only be the longest run of characters
  other than \<open><\<close>. \<open>matchAt\<close> returns the group; \<open>regexMatch\<close> is \<open>line.match(regex)\<close>
  for this regular expression without the global flag: the leftmost match, with its index.
\<close>

fun stripPrefix :: "string \<Rightarrow> string \<Rightarrow> string option" where
  "stripPrefix [] s = Some s"
| "stripPrefix (p # ps) [] = None"
| "stripPrefix (p # ps) (c # cs) = (if p = c then stripPrefix ps cs else None)"

definition matchAt :: "string \<Rightarrow> string option" where
  "matchAt s =
     (case stripPrefix ''<functionname>'' s of
        None \<Rightarrow> None
      | Some rest \<Rightarrow>
          (let body = takeWhile (\<lambda>c. c \<noteq> CHR ''<'') rest;
               after = dropWhile (\<lambda>c. c \<noteq> CHR ''<'') rest
           in if body \<noteq> [] \<and> stripPrefix ''</functionname>'' after \<noteq> None
              then Some body else None))"

fun regexMatch :: "string \<Rightarrow> nat \<Rightarrow> (nat \<times> string) option" where
  "regexMatch [] i = None"
| "regexMatch (c # cs) i =
     (case matchAt (c # cs) of
        Some body \<Rightarrow> Some (i, body)
      | None \<Rightarrow> regexMatch cs (Suc i))"

text \<open>
  \<open>trim()\<close> removes white space and line terminators at both ends; of these, the
  characters below 256 are listed.
\<close>

definition isWhiteSpace :: "char \<Rightarrow> bool" where
  "isWhiteSpace c = (c \<in> set [CHR 0x09, CHR 0x0A, CHR 0x0B, CHR 0x0C, CHR 0x0D, CHR 0x20, CHR 0xA0])"

definition trim :: "string \<Rightarrow> string" where
  "trim s = rev (dropWhile isWhiteSpace (rev (dropWhile isWhiteSpace s)))"

text \<open>
  The loop of \<open>extractFunctionLineNumbers\<close>, with its variables \<open>currentPos\<close>,
  \<open>lineNumber\<close> and \<open>functionIndex\<close> as arguments.
\<close>

function scanLines :: "string \<Rightarrow> nat \<Rightarrow> nat \<Rightarrow> FunctionEntry list \<Rightarrow> FunctionEntry list" where
  "scanLines xmlString currentPos lineNo functionIndex =
     (if currentPos < length xmlString then
        (let lineEndPos = (case indexOf xmlString CHR 0x0A currentPos of
                             None \<Rightarrow> length xmlString
                           | Some nextLineBreak \<Rightarrow> nextLineBreak);
             line0 = substring xmlString currentPos lineEndPos;
             line = (if endsWith line0 CHR 0x0D then butlast line0 else line0);
             functionIndex' =
               (case regexMatch line 0 of
                  Some (index, body) \<Rightarrow>
                    functionIndex @ [\<lparr>name = trim body, lineNumber = lineNo, columnStart = index\<rparr>]
                | None \<Rightarrow> functionIndex)
         in scanLines xmlString (lineEndPos + 1) (lineNo + 1) functionIndex')
      else functionIndex)"
  by pat_completeness auto

termination
  by (relation "measure (\<lambda>(s, pos, ln, acc). length s - pos)")
     (auto simp: indexOf_def Let_def split: option.splits if_splits)

text \<open>
  The guard \<open>!xmlString || typeof xmlString !== 'string'\<close> returns the empty index for
  the empty string; the argument is a string by its type.
\<close>

definition extractFunctionLineNumbers :: "string \<Rightarrow> FunctionEntry list" where
  "extractFunctionLineNumbers xmlString =
     (if xmlString = [] then [] else scanLines xmlString 0 1 [])"

text \<open>
  The loop of \<open>findFunctionByLineNumber\<close> with \<open>left\<close> and \<open>right\<close> as arguments. The
  line searched is any number. Reading \<open>functionIndex[mid]\<close> outside the array would give
  \<open>undefined\<close>, and \<open>current.lineNumber\<close> would then throw a TypeError.
\<close>

function binarySearch ::
  "FunctionEntry list \<Rightarrow> jsnumber \<Rightarrow> int \<Rightarrow> int \<Rightarrow> js_error + FunctionEntry option" where
  "binarySearch functionIndex lineNo left right =
     (if left \<le> right then
        (let mid = (left + right) div 2 in
         if mid < 0 \<or> int (length functionIndex) \<le> mid then Inl TypeError
         else
           (let current = functionIndex ! nat mid in
            if Fin (real (lineNumber current)) = lineNo then Inr (Some current)
            else if js_lt (Fin (real (lineNumber current))) lineNo
              then binarySearch functionIndex lineNo (mid + 1) right
              else binarySearch functionIndex lineNo left (mid - 1)))
      else Inr None)"
  by pat_completeness auto

termination
  by (relation "measure (\<lambda>(xs, l, left, right). nat (right - left + 1))") auto

definition findFunctionByLineNumber :: "FunctionEntry list \<Rightarrow> jsnumber \<Rightarrow> js_error + FunctionEntry option" where
  "findFunctionByLineNumber functionIndex lineNo =
     binarySearch functionIndex lineNo 0 (int (length functionIndex) - 1)"

text \<open>
  The lines of a text: the pieces between line feeds, without a last empty piece when
  the text ends with a line feed. \<open>stripCR\<close> drops one carriage return at the end of a
  line.
\<close>

fun splitLines :: "string \<Rightarrow> string list" where
  "splitLines [] = []"
| "splitLines (c # cs) =
     (if c = CHR 0x0A then [] # splitLines cs
      else case splitLines cs of [] \<Rightarrow> [[c]] | l # ls \<Rightarrow> (c # l) # ls)"

definition stripCR :: "string \<Rightarrow> string" where
  "stripCR l = (if endsWith l CHR 0x0D then butlast l else l)"

text \<open>
  The index described line by line: an entry for each line that matches, numbered from
  \<open>n\<close>.
\<close>

fun indexStripped :: "string list \<Rightarrow> nat \<Rightarrow> FunctionEntry list" where
  "indexStripped [] n = []"
| "indexStripped (l # ls) n =
     (case regexMatch l 0 of
        Some (index, body) \<Rightarrow> [\<lparr>name = trim body, lineNumber = n, columnStart = index\<rparr>]
      | None \<Rightarrow> [])
     @ indexStripped ls (Suc n)"

definition indexLines :: "string \<Rightarrow> FunctionEntry list" where
  "indexLines s = indexStripped (map stripCR (splitLines s)) 1"




text \<open>
  A name without the white space around it: \<open>u\<close> is what remains of \<open>s\<close> when a run of
  white space is taken from each end, and \<open>u\<close> itself neither starts nor ends with white
  space.
\<close>

definition isTrimOf :: "string \<Rightarrow> string \<Rightarrow> bool" where
  "isTrimOf s u =
     (\<exists>a b. s = a @ u @ b \<and> list_all isWhiteSpace a \<and> list_all isWhiteSpace b
            \<and> (u = [] \<or> (\<not> isWhiteSpace (hd u) \<and> \<not> isWhiteSpace (last u))))"



declare scanLines.simps [simp del]

declare binarySearch.simps [simp del]

text \<open>
  Sample texts: mixed line endings, two tags on one line, and line feeds only.
\<close>

definition sampleDocument :: string where
  "sampleDocument =
     ''<function>'' @ [CHR 0x0D, CHR 0x0A]
     @ ''  <functionname> DC Voltage </functionname>'' @ [CHR 0x0D, CHR 0x0A]
     @ ''</function>'' @ [CHR 0x0A]
     @ ''<functionname>Resistance</functionname>''"



section \<open>Template engine (templateExtractor.ts)\<close>

text \<open>
  Reading a property \<open>o.k\<close>: a TypeError (\<open>None\<close>) on \<open>undefined\<close> and \<open>null\<close>, the own
  property of an object, and \<open>undefined\<close> where the key is missing. None of the property
  names read by this module exists on a primitive, an array or \<open>Object.prototype\<close>.
\<close>

fun getProp :: "jsval \<Rightarrow> string \<Rightarrow> jsval option" where
  "getProp Undefined k = None"
| "getProp Null k = None"
| "getProp (Obj fs) k = Some (case map_of fs k of Some v \<Rightarrow> v | None \<Rightarrow> Undefined)"
| "getProp v k = Some Undefined"

text \<open>The properties \<open>k: o.k\<close> of an object literal, evaluated in order.\<close>

fun pick :: "jsval \<Rightarrow> string list \<Rightarrow> (string \<times> jsval) list option" where
  "pick obj [] = Some []"
| "pick obj (k # ks) =
     (case getProp obj k of
        None \<Rightarrow> None
      | Some v \<Rightarrow> (case pick obj ks of None \<Rightarrow> None | Some fs \<Rightarrow> Some ((k, v) # fs)))"

text \<open>\<open>a.map(f)\<close> for a callback that may throw.\<close>

fun mapThrowing :: "(jsval \<Rightarrow> jsval option) \<Rightarrow> jsval list \<Rightarrow> jsval list option" where
  "mapThrowing f [] = Some []"
| "mapThrowing f (x # xs) =
     (case f x of
        None \<Rightarrow> None
      | Some y \<Rightarrow> (case mapThrowing f xs of None \<Rightarrow> None | Some ys \<Rightarrow> Some (y # ys)))"

text \<open>
  \<open>a.map(f)\<close> on a value: only an array has a \<open>map\<close> method among the values modelled,
  on anything else the call throws a TypeError.
\<close>

definition arrayMap :: "(jsval \<Rightarrow> jsval option) \<Rightarrow> jsval \<Rightarrow> jsval option" where
  "arrayMap f a = (case a of Arr xs \<Rightarrow> map_option Arr (mapThrowing f xs) | _ \<Rightarrow> None)"

text \<open>
  The content fields that the template interfaces declare, in the order in which the
  object literals of the extraction functions list them.
\<close>

definition functionFields :: "string list" where
  "functionFields = [''functionname'', ''modifier'', ''properties'', ''format'', ''isoutput'']"

definition rangeFields :: "string list" where
  "rangeFields = [''rangename'', ''rangeid'', ''properties'', ''autoassign'']"

definition parameterFields :: "string list" where
  "parameterFields =
     [''lowerlimit'', ''upperlimit'', ''unitofmeasure'', ''unitsymbol'', ''isbipolar'', ''paramname'']"

definition specificationFields :: "string list" where
  "specificationFields =
     [''calinterval'', ''Specialcal'', ''AssetNum'', ''spectype'', ''unitofmeasure'',
      ''unitsymbol'', ''fullscale'', ''iv_pct'', ''iv_pct_hi'', ''iv_ppm'', ''fs_pct'',
      ''fs_pct_hi'', ''fs_ppm'', ''floor'', ''floor_hi'', ''db'', ''dbtype'', ''calcdesc'',
      ''calcstring'', ''operand'']"

text \<open>
  The four extraction functions. Each builds a fresh object from the listed properties
  of its argument; ranges and specifications are mapped over.
\<close>

definition extractSpecificationTemplate :: "jsval \<Rightarrow> jsval option" where
  "extractSpecificationTemplate spec = map_option Obj (pick spec specificationFields)"

definition extractParameterTemplate :: "jsval \<Rightarrow> jsval option" where
  "extractParameterTemplate param = map_option Obj (pick param parameterFields)"

definition extractRangeTemplate :: "jsval \<Rightarrow> jsval option" where
  "extractRangeTemplate rng = do {
     copied \<leftarrow> pick rng rangeFields;
     p \<leftarrow> getProp rng ''parameter'';
     parameter \<leftarrow> extractParameterTemplate p;
     s \<leftarrow> getProp rng ''specifications'';
     specifications \<leftarrow> arrayMap extractSpecificationTemplate s;
     Some (Obj (copied @ [(''parameter'', parameter), (''specifications'', specifications)]))
   }"

definition extractFunctionTemplate :: "jsval \<Rightarrow> jsval option" where
  "extractFunctionTemplate func = do {
     copied \<leftarrow> pick func functionFields;
     r \<leftarrow> getProp func ''ranges'';
     ranges \<leftarrow> arrayMap extractRangeTemplate r;
     Some (Obj (copied @ [(''ranges'', ranges)]))
   }"

text \<open>
  Instantiation calls \<open>generateMOXUUID()\<close> once per identifier. The generator is a
  parameter: \<open>gen k\<close> is what its \<open>k\<close>-th call returns, and the state threaded through
  the functions is the number of calls made so far.
\<close>

type_synonym 'a minting = "nat \<Rightarrow> ('a \<times> nat) option"

text \<open>
  \<open>a.map((x, idx) => f(x, idx))\<close> for a callback that mints identifiers and may throw.
\<close>

fun mapMinting :: "(jsval \<Rightarrow> nat \<Rightarrow> jsval minting) \<Rightarrow> jsval list \<Rightarrow> nat \<Rightarrow> (jsval list) minting" where
  "mapMinting f [] idx st = Some ([], st)"
| "mapMinting f (x # xs) idx st =
     (case f x idx st of
        None \<Rightarrow> None
      | Some (y, st') \<Rightarrow>
          (case mapMinting f xs (Suc idx) st' of
             None \<Rightarrow> None
           | Some (ys, st'') \<Rightarrow> Some (y # ys, st'')))"

definition arrayMapMinting :: "(jsval \<Rightarrow> nat \<Rightarrow> jsval minting) \<Rightarrow> jsval \<Rightarrow> jsval minting" where
  "arrayMapMinting f a st =
     (case a of
        Arr xs \<Rightarrow> (case mapMinting f xs 0 st of None \<Rightarrow> None | Some (ys, st') \<Rightarrow> Some (Arr ys, st'))
      | _ \<Rightarrow> None)"

text \<open>
  The four instantiation functions. The properties of each object literal are evaluated
  in source order, so the two identifiers of an entity are minted before those of its
  descendants.
\<close>

definition createSpecificationFromTemplate :: "(nat \<Rightarrow> string) \<Rightarrow> jsval \<Rightarrow> jsval \<Rightarrow> jsval minting" where
  "createSpecificationFromTemplate gen template sequence st =
     (let pui = Str (gen st); dui = Str (gen (st + 1)) in
      case pick template specificationFields of
        None \<Rightarrow> None
      | Some copied \<Rightarrow>
          Some (Obj ([(''pui'', pui), (''dui'', dui), (''sequence'', sequence)] @ copied), st + 2))"

definition createParameterFromTemplate :: "(nat \<Rightarrow> string) \<Rightarrow> jsval \<Rightarrow> jsval minting" where
  "createParameterFromTemplate gen template st =
     (let pui = Str (gen st); dui = Str (gen (st + 1)) in
      case pick template
             [''lowerlimit'', ''upperlimit'', ''unitofmeasure'', ''unitsymbol'', ''isbipolar''] of
        None \<Rightarrow> None
      | Some copied \<Rightarrow>
          (case getProp template ''paramname'' of
             None \<Rightarrow> None
           | Some paramname \<Rightarrow>
               Some (Obj ([(''pui'', pui), (''dui'', dui), (''sequence'', Number (Fin 0))]
                          @ copied
                          @ [(''noteidlist'', Str []), (''paramname'', paramname),
                             (''verified'', Bool False), (''review'', Bool False)]), st + 2)))"

definition createRangeFromTemplate :: "(nat \<Rightarrow> string) \<Rightarrow> jsval \<Rightarrow> jsval \<Rightarrow> jsval minting" where
  "createRangeFromTemplate gen template sequence st =
     (let pui = Str (gen st); dui = Str (gen (st + 1)) in
      case pick template rangeFields of
        None \<Rightarrow> None
      | Some copied \<Rightarrow>
          (case getProp template ''parameter'' of
             None \<Rightarrow> None
           | Some p \<Rightarrow>
               (case createParameterFromTemplate gen p (st + 2) of
                  None \<Rightarrow> None
                | Some (parameter, st1) \<Rightarrow>
                    (case getProp template ''specifications'' of
                       None \<Rightarrow> None
                     | Some s \<Rightarrow>
                         (case arrayMapMinting
                                 (\<lambda>specTemplate idx.
                                    createSpecificationFromTemplate gen specTemplate
                                      (Number (Fin (real idx)))) s st1 of
                            None \<Rightarrow> None
                          | Some (specifications, st2) \<Rightarrow>
                              Some (Obj ([(''pui'', pui), (''dui'', dui), (''sequence'', sequence)]
                                         @ copied
                                         @ [(''noteidlist'', Str ''''), (''verified'', Bool False),
                                            (''review'', Bool False), (''parameter'', parameter),
                                            (''specifications'', specifications)]), st2))))))"

definition createFunctionFromTemplate :: "(nat \<Rightarrow> string) \<Rightarrow> jsval \<Rightarrow> jsval \<Rightarrow> jsval minting" where
  "createFunctionFromTemplate gen template sequence st =
     (let pui = Str (gen st); dui = Str (gen (st + 1)) in
      case pick template functionFields of
        None \<Rightarrow> None
      | Some copied \<Rightarrow>
          (case getProp template ''ranges'' of
             None \<Rightarrow> None
           | Some r \<Rightarrow>
               (case arrayMapMinting
                       (\<lambda>rangeTemplate idx.
                          createRangeFromTemplate gen rangeTemplate (Number (Fin (real idx)))) r
                       (st + 2) of
                  None \<Rightarrow> None
                | Some (ranges, st1) \<Rightarrow>
                    Some (Obj ([(''pui'', pui), (''dui'', dui), (''sequence'', sequence)]
                               @ copied
                               @ [(''noteidlist'', Str ''''), (''verified'', Bool False),
                                  (''review'', Bool False), (''ranges'', ranges),
                                  (''_uiExpanded'', Bool False),
                                  (''_uiStatus'', Str ''unreviewed'')]), st1))))"

text \<open>Total readers used to state properties of a tree.\<close>

definition readProp :: "jsval \<Rightarrow> string \<Rightarrow> jsval" where
  "readProp v k = (case v of Obj fs \<Rightarrow> (case map_of fs k of Some x \<Rightarrow> x | None \<Rightarrow> Undefined) | _ \<Rightarrow> Undefined)"

definition elems :: "jsval \<Rightarrow> jsval list" where
  "elems v = (case v of Arr xs \<Rightarrow> xs | _ \<Rightarrow> [])"

definition keysOf :: "jsval \<Rightarrow> string list" where
  "keysOf v = (case v of Obj fs \<Rightarrow> map fst fs | _ \<Rightarrow> [])"

text \<open>
  The identifiers of an entity tree: \<open>pui\<close> and \<open>dui\<close> of the function, of every range,
  of every parameter and of every specification.
\<close>

definition ownIdentifiers :: "jsval \<Rightarrow> jsval list" where
  "ownIdentifiers e = [readProp e ''pui'', readProp e ''dui'']"

definition rangeIdentifiers :: "jsval \<Rightarrow> jsval list" where
  "rangeIdentifiers r =
     ownIdentifiers r @ ownIdentifiers (readProp r ''parameter'')
     @ concat (map ownIdentifiers (elems (readProp r ''specifications'')))"

definition functionIdentifiers :: "jsval \<Rightarrow> jsval list" where
  "functionIdentifiers f =
     ownIdentifiers f @ concat (map rangeIdentifiers (elems (readProp f ''ranges'')))"

text \<open>
  The shape of a function entity and of a function template: an object whose \<open>ranges\<close>
  is an array of objects, each with a \<open>parameter\<close> object and a \<open>specifications\<close> array
  of objects. On such values the extraction and instantiation functions do not throw.
\<close>

definition nonNull :: "jsval \<Rightarrow> bool" where
  "nonNull v = (v \<noteq> Null \<and> v \<noteq> Undefined)"

definition isArr :: "jsval \<Rightarrow> bool" where
  "isArr v = (case v of Arr _ \<Rightarrow> True | _ \<Rightarrow> False)"

definition shapedRange :: "jsval \<Rightarrow> bool" where
  "shapedRange r =
     (nonNull r \<and> nonNull (readProp r ''parameter'') \<and> isArr (readProp r ''specifications'')
      \<and> list_all nonNull (elems (readProp r ''specifications'')))"

definition shapedFunction :: "jsval \<Rightarrow> bool" where
  "shapedFunction f =
     (nonNull f \<and> isArr (readProp f ''ranges'') \<and> list_all shapedRange (elems (readProp f ''ranges'')))"

text \<open>
  The identifier, audit and view-only property names that a template must not have.
\<close>

definition strippedFields :: "string list" where
  "strippedFields =
     [''pui'', ''dui'', ''verified'', ''review'', ''noteidlist'', ''_uiExpanded'', ''_uiStatus'']"

text \<open>
  The objects of a template or entity: the function, its ranges, their parameters and
  their specifications.
\<close>

definition templateNodes :: "jsval \<Rightarrow> jsval list" where
  "templateNodes t =
     t # concat (map (\<lambda>r. r # readProp r ''parameter'' # elems (readProp r ''specifications''))
                  (elems (readProp t ''ranges'')))"

text \<open>
  Two trees have the same content when they agree on the content fields of every level
  and have their ranges and specifications in the same number and order.
\<close>

definition agreeOn :: "string list \<Rightarrow> jsval \<Rightarrow> jsval \<Rightarrow> bool" where
  "agreeOn ks a b = list_all (\<lambda>k. readProp a k = readProp b k) ks"

definition sameRange :: "jsval \<Rightarrow> jsval \<Rightarrow> bool" where
  "sameRange a b =
     (agreeOn rangeFields a b
      \<and> agreeOn parameterFields (readProp a ''parameter'') (readProp b ''parameter'')
      \<and> list_all2 (agreeOn specificationFields)
           (elems (readProp a ''specifications'')) (elems (readProp b ''specifications'')))"

definition sameContent :: "jsval \<Rightarrow> jsval \<Rightarrow> bool" where
  "sameContent a b =
     (agreeOn functionFields a b
      \<and> list_all2 sameRange (elems (readProp a ''ranges'')) (elems (readProp b ''ranges'')))"

text \<open>
  The function entity that the tests of the template engine build.
\<close>

definition testSpec :: jsval where
  "testSpec = Obj [(''pui'', Str ''{SPEC-PUI}''), (''dui'', Str ''{SPEC-DUI}''), (''sequence'', Number (Fin 0)),
     (''calinterval'', Number (Fin 365)), (''Specialcal'', Str ''''), (''AssetNum'', Str ''''),
     (''spectype'', Str ''Accuracy''), (''unitofmeasure'', Str ''volt''), (''unitsymbol'', Str ''V''),
     (''fullscale'', Number (Fin 0)), (''iv_pct'', Number (Fin (1/10))), (''iv_pct_hi'', Number (Fin 0)),
     (''iv_ppm'', Number (Fin 0)), (''fs_pct'', Number (Fin 0)), (''fs_pct_hi'', Number (Fin 0)),
     (''fs_ppm'', Number (Fin 0)), (''floor'', Number (Fin 0)), (''floor_hi'', Number (Fin 0)),
     (''db'', Number (Fin 0)), (''dbtype'', Number (Fin 0)), (''calcdesc'', Str ''''),
     (''calcstring'', Str ''''), (''operand'', Str ''PlusMinus'')]"

definition testFunction :: jsval where
  "testFunction = Obj [(''pui'', Str ''{FUNC-PUI}''), (''dui'', Str ''{FUNC-DUI}''), (''sequence'', Number (Fin 0)),
     (''functionname'', Str ''Test Function''), (''modifier'', Null), (''properties'', Str ''''),
     (''format'', Str ''''), (''isoutput'', Bool False), (''noteidlist'', Str ''''),
     (''verified'', Bool False), (''review'', Bool False),
     (''ranges'', Arr [Obj [(''pui'', Str ''{RANGE-PUI}''), (''dui'', Str ''{RANGE-DUI}''),
        (''sequence'', Number (Fin 0)), (''rangename'', Str ''Test Range''), (''rangeid'', Str ''''),
        (''properties'', Str ''''), (''autoassign'', Bool True), (''noteidlist'', Str ''''),
        (''verified'', Bool False), (''review'', Bool False),
        (''parameter'', Obj [(''pui'', Str ''{PARAM-PUI}''), (''dui'', Str ''{PARAM-DUI}''),
           (''sequence'', Number (Fin 0)), (''lowerlimit'', Number (Fin 0)), (''upperlimit'', Number (Fin 100)),
           (''unitofmeasure'', Str ''volt''), (''unitsymbol'', Str ''V''), (''isbipolar'', Bool True),
           (''noteidlist'', Str ''''), (''paramname'', Str ''''), (''verified'', Bool False),
           (''review'', Bool False)]),
        (''specifications'', Arr [testSpec])]]),
     (''_uiExpanded'', Bool False), (''_uiStatus'', Str ''unreviewed'')]"

text \<open>The built-in template registered under the key \<open>voltage-dc\<close>.\<close>

definition voltageDcTemplate :: jsval where
  "voltageDcTemplate =
     Obj [(''functionname'', Str ''Voltage, DC''), (''modifier'', Null), (''properties'', Str []),
          (''format'', Str []), (''isoutput'', Bool False),
          (''ranges'', Arr [Obj [(''rangename'', Str ''Default Range''), (''rangeid'', Str []),
             (''properties'', Str []), (''autoassign'', Bool True),
             (''parameter'', Obj [(''lowerlimit'', Number (Fin 0)), (''upperlimit'', Number (Fin 100)),
                (''unitofmeasure'', Str ''volt''), (''unitsymbol'', Str ''V''),
                (''isbipolar'', Bool True), (''paramname'', Str [])]),
             (''specifications'', Arr [Obj [(''calinterval'', Number (Fin 365)),
                (''Specialcal'', Str []), (''AssetNum'', Str []), (''spectype'', Str ''Accuracy''),
                (''unitofmeasure'', Str ''volt''), (''unitsymbol'', Str ''V''),
                (''fullscale'', Number (Fin 0)), (''iv_pct'', Number (Fin (1 / 10))),
                (''iv_pct_hi'', Number (Fin 0)), (''iv_ppm'', Number (Fin 0)),
                (''fs_pct'', Number (Fin 0)), (''fs_pct_hi'', Number (Fin 0)),
                (''fs_ppm'', Number (Fin 0)), (''floor'', Number (Fin 0)),
                (''floor_hi'', Number (Fin 0)), (''db'', Number (Fin 0)),
                (''dbtype'', Number (Fin 0)), (''calcdesc'', Str []), (''calcstring'', Str []),
                (''operand'', Str ''PlusMinus'')]])]])]"

text \<open>A generator whose values are pairwise distinct, for concrete runs.\<close>

definition countingGenerator :: "nat \<Rightarrow> string" where
  "countingGenerator k = ''{'' @ replicate k CHR ''1'' @ ''}''"

text \<open>
  The templates of a specification and of a range, written out.
\<close>

definition specTemplateOf :: "jsval \<Rightarrow> jsval" where
  "specTemplateOf s = Obj (map (\<lambda>k. (k, readProp s k)) specificationFields)"

definition rangeTemplateOf :: "jsval \<Rightarrow> jsval" where
  "rangeTemplateOf r =
     Obj (map (\<lambda>k. (k, readProp r k)) rangeFields
          @ [(''parameter'', Obj (map (\<lambda>k. (k, readProp (readProp r ''parameter'') k)) parameterFields)),
             (''specifications'', Arr (map specTemplateOf (elems (readProp r ''specifications''))))])"

section \<open>Parser and serializer (msfParser.ts, msfSerializer.ts)\<close>

text \<open>
  Modelled from the spec: the parser and the serializer (\<open>parseMSFXML\<close>, \<open>extractAllUUIDs\<close>
  and \<open>serializeMSFToXML\<close>, of which only the tests are among the sources). The spec
  gives the rules at the level of elements and fields and leaves the lexical layer of XML
  (tags, escaping, white space) open, so a well-formed document is modelled as the tree of
  its elements: a tag, character data and child elements.
\<close>

datatype xml = Element string string "xml list"

fun tagOf :: "xml \<Rightarrow> string" where
  "tagOf (Element t s cs) = t"

fun textOf :: "xml \<Rightarrow> string" where
  "textOf (Element t s cs) = s"

fun childrenOf :: "xml \<Rightarrow> xml list" where
  "childrenOf (Element t s cs) = cs"

text \<open>
  Modelled from the spec: the fields of an entity type, in the canonical order of the
  serializer. A text field keeps the empty string; a designated optional text field turns
  the empty string into an explicit absent value; a boolean field uses the two-value
  sentinel; a numeric field holds a number; a section is a singular child entity; a
  collection is a repeatable child, with the key of the list in the tree, the tag of its
  elements and, where the schema has one, the tag of a wrapper element.
\<close>

datatype field =
    TextField string
  | OptionalTextField string
  | BooleanField string
  | NumberField string
  | Section string "field list"
  | Collection string string "string option" "field list"

text \<open>
  Modelled from the spec: the spec does not say how a numeric literal is read and
  written, so both conversions are parameters.
\<close>

record number_codec =
  decodeNumber :: "string \<Rightarrow> jsnumber"
  encodeNumber :: "jsnumber \<Rightarrow> string"

datatype parse_error = FormatError

text \<open>
  The child elements with a given tag, in document order; the character data and the
  children of the first of them (a missing element reads like an empty one).
\<close>

definition named :: "string \<Rightarrow> xml list \<Rightarrow> xml list" where
  "named t cs = filter (\<lambda>e. tagOf e = t) cs"

definition childText :: "string \<Rightarrow> xml list \<Rightarrow> string" where
  "childText t cs = (case named t cs of [] \<Rightarrow> [] | e # _ \<Rightarrow> textOf e)"

definition childElements :: "string \<Rightarrow> xml list \<Rightarrow> xml list" where
  "childElements t cs = (case named t cs of [] \<Rightarrow> [] | e # _ \<Rightarrow> childrenOf e)"

definition collectionElements :: "string \<Rightarrow> string option \<Rightarrow> xml list \<Rightarrow> xml list" where
  "collectionElements t wrapper cs =
     (case wrapper of None \<Rightarrow> named t cs | Some w \<Rightarrow> named t (childElements w cs))"

text \<open>
  Modelled from the spec: the normalization rules of the parser. The literal \<open>-1\<close>
  decodes to true and anything else to false; an optional text field that is empty becomes
  null; a repeatable child always becomes a list, whatever the number of its occurrences.
\<close>

fun parseFields :: "number_codec \<Rightarrow> field list \<Rightarrow> xml list \<Rightarrow> (string \<times> jsval) list"
  and parseField :: "number_codec \<Rightarrow> field \<Rightarrow> xml list \<Rightarrow> string \<times> jsval" where
  "parseFields c [] cs = []"
| "parseFields c (f # fs) cs = parseField c f cs # parseFields c fs cs"
| "parseField c (TextField k) cs = (k, Str (childText k cs))"
| "parseField c (OptionalTextField k) cs =
     (k, if childText k cs = [] then Null else Str (childText k cs))"
| "parseField c (BooleanField k) cs = (k, Bool (childText k cs = ''-1''))"
| "parseField c (NumberField k) cs = (k, Number (decodeNumber c (childText k cs)))"
| "parseField c (Section k fs) cs = (k, Obj (parseFields c fs (childElements k cs)))"
| "parseField c (Collection k t wrapper fs) cs =
     (k, Arr (map (\<lambda>e. Obj (parseFields c fs (childrenOf e))) (collectionElements t wrapper cs)))"

text \<open>
  Modelled from the spec: \<open>parse\<close> fails with a format error when the root element is
  not the instrument element, and returns no partial tree.
\<close>

definition parseMSFXML :: "number_codec \<Rightarrow> field list \<Rightarrow> xml \<Rightarrow> parse_error + jsval" where
  "parseMSFXML c instrumentFields document =
     (if tagOf document = ''instrument''
      then Inr (Obj [(''instrument'', Obj (parseFields c instrumentFields (childrenOf document)))])
      else Inl FormatError)"

text \<open>
  How the serializer writes a text, a boolean and a number; a value of another kind (an
  absent value among them) is written as the empty string.
\<close>

definition textValue :: "jsval \<Rightarrow> string" where
  "textValue v = (case v of Str s \<Rightarrow> s | _ \<Rightarrow> [])"

definition booleanValue :: "jsval \<Rightarrow> string" where
  "booleanValue v = (if v = Bool True then ''-1'' else ''0'')"

definition numberValue :: "number_codec \<Rightarrow> jsval \<Rightarrow> string" where
  "numberValue c v = (case v of Number n \<Rightarrow> encodeNumber c n | _ \<Rightarrow> [])"

text \<open>
  Modelled from the spec: the serializer writes the fields in schema order; true is
  written \<open>-1\<close> and false \<open>0\<close>; an absent value is written like the empty string, as an
  element without character data; a list is written as repeated sibling elements in list
  order, inside its wrapper where it has one.
\<close>

fun serializeFields :: "number_codec \<Rightarrow> field list \<Rightarrow> jsval \<Rightarrow> xml list"
  and serializeField :: "number_codec \<Rightarrow> field \<Rightarrow> jsval \<Rightarrow> xml list" where
  "serializeFields c [] obj = []"
| "serializeFields c (f # fs) obj = serializeField c f obj @ serializeFields c fs obj"
| "serializeField c (TextField k) obj = [Element k (textValue (readProp obj k)) []]"
| "serializeField c (OptionalTextField k) obj = [Element k (textValue (readProp obj k)) []]"
| "serializeField c (BooleanField k) obj = [Element k (booleanValue (readProp obj k)) []]"
| "serializeField c (NumberField k) obj = [Element k (numberValue c (readProp obj k)) []]"
| "serializeField c (Section k fs) obj = [Element k [] (serializeFields c fs (readProp obj k))]"
| "serializeField c (Collection k t wrapper fs) obj =
     (let items = map (\<lambda>e. Element t [] (serializeFields c fs e)) (elems (readProp obj k))
      in case wrapper of None \<Rightarrow> items | Some w \<Rightarrow> [Element w [] items])"

text \<open>
  Modelled from the spec: \<open>serialize\<close> writes the instrument element with the fields of
  the instrument entity as its children.
\<close>

definition serializeMSFToXML :: "number_codec \<Rightarrow> field list \<Rightarrow> jsval \<Rightarrow> xml" where
  "serializeMSFToXML c instrumentFields doc =
     Element ''instrument'' [] (serializeFields c instrumentFields (readProp doc ''instrument''))"

text \<open>
  Modelled from the spec: the identifier extraction, a traversal in document order that
  yields every primary and secondary identifier of every level, duplicates included.
\<close>

fun extractAllUUIDs :: "jsval \<Rightarrow> string list" where
  "extractAllUUIDs (Obj fs) =
     concat (map (\<lambda>kv. (if fst kv = ''pui'' \<or> fst kv = ''dui''
                          then (case snd kv of Str s \<Rightarrow> [s] | _ \<Rightarrow> []) else [])
                        @ extractAllUUIDs (snd kv)) fs)"
| "extractAllUUIDs (Arr xs) = concat (map extractAllUUIDs xs)"
| "extractAllUUIDs v = []"

text \<open>
  The key of a field in the tree and the tag by which its elements are found among the
  children of the entity. A schema is usable when, at every level, no two fields share a
  key or a tag.
\<close>

fun keyOf :: "field \<Rightarrow> string" where
  "keyOf (TextField k) = k"
| "keyOf (OptionalTextField k) = k"
| "keyOf (BooleanField k) = k"
| "keyOf (NumberField k) = k"
| "keyOf (Section k fs) = k"
| "keyOf (Collection k t wrapper fs) = k"

fun wireTag :: "field \<Rightarrow> string" where
  "wireTag (Collection k t wrapper fs) = (case wrapper of None \<Rightarrow> t | Some w \<Rightarrow> w)"
| "wireTag f = keyOf f"

fun distinctFields :: "field list \<Rightarrow> bool"
  and distinctField :: "field \<Rightarrow> bool" where
  "distinctFields [] = True"
| "distinctFields (f # fs) =
     (distinctField f \<and> wireTag f \<notin> set (map wireTag fs) \<and> keyOf f \<notin> set (map keyOf fs)
      \<and> distinctFields fs)"
| "distinctField (Section k fs) = distinctFields fs"
| "distinctField (Collection k t wrapper fs) = distinctFields fs"
| "distinctField f = True"

text \<open>
  Writing a number that was read and reading it again gives the same number.
\<close>

definition numbersRoundTrip :: "number_codec \<Rightarrow> bool" where
  "numbersRoundTrip c =
     (\<forall>s. decodeNumber c (encodeNumber c (decodeNumber c s)) = decodeNumber c s)"

text \<open>
  A number conversion for natural numbers in decimal notation, used for concrete runs.
\<close>

definition digitChar :: "nat \<Rightarrow> char" where
  "digitChar d = ''0123456789'' ! d"

definition digitValue :: "char \<Rightarrow> nat option" where
  "digitValue ch = map_of (zip ''0123456789'' [0, 1, 2, 3, 4, 5, 6, 7, 8, 9]) ch"

fun showNat :: "nat \<Rightarrow> string" where
  "showNat n = (if n < 10 then [digitChar n] else showNat (n div 10) @ [digitChar (n mod 10)])"

definition readDigits :: "nat option \<Rightarrow> string \<Rightarrow> nat option" where
  "readDigits start s =
     foldl (\<lambda>acc ch. case acc of
                        None \<Rightarrow> None
                      | Some a \<Rightarrow> (case digitValue ch of None \<Rightarrow> None | Some d \<Rightarrow> Some (10 * a + d)))
       start s"

definition decimalCodec :: number_codec where
  "decimalCodec =
     \<lparr>decodeNumber = (\<lambda>s. if s = [] then Fin 0
                            else case readDigits (Some 0) s of
                                   Some n \<Rightarrow> Fin (real n)
                                 | None \<Rightarrow> NaN),
      encodeNumber = (\<lambda>v. case v of
                            Fin r \<Rightarrow> if r = real (nat \<lfloor>r\<rfloor>) then showNat (nat \<lfloor>r\<rfloor>) else ''NaN''
                          | _ \<Rightarrow> ''NaN'')\<rparr>"

text \<open>
  The fields and the document of the parser test that has one function element (the
  header is abridged), with some of the values changed.
\<close>

definition sampleFields :: "field list" where
  "sampleFields =
     [TextField ''pui'', TextField ''dui'', BooleanField ''verified'', BooleanField ''review'',
      TextField ''filenotes'', TextField ''filehistory'',
      Section ''header''
        [TextField ''pui'', TextField ''dui'', TextField ''model'', TextField ''manufacturer'',
         TextField ''description'', NumberField ''confidence'', TextField ''confidenceDesc'',
         NumberField ''revision'', BooleanField ''isactive'', BooleanField ''verified'',
         BooleanField ''review'', TextField ''revisionnotes''],
      Collection ''functions'' ''function'' None
        [TextField ''pui'', TextField ''dui'', NumberField ''sequence'',
         TextField ''functionname'', OptionalTextField ''modifier'', TextField ''properties'',
         TextField ''format'', BooleanField ''isoutput'', TextField ''noteidlist'',
         BooleanField ''verified'', BooleanField ''review'']]"

definition sampleInstrument :: xml where
  "sampleInstrument =
     Element ''instrument'' []
       [Element ''pui'' ''{TEST1}'' [], Element ''dui'' ''{TEST2}'' [],
        Element ''verified'' ''-1'' [], Element ''review'' ''0'' [],
        Element ''filenotes'' [] [], Element ''filehistory'' [] [],
        Element ''header'' []
          [Element ''pui'' ''{HEADER1}'' [], Element ''dui'' ''{HEADER2}'' [],
           Element ''model'' ''Test'' [], Element ''manufacturer'' ''Test'' [],
           Element ''description'' ''Test'' [], Element ''confidence'' ''0'' [],
           Element ''confidenceDesc'' [] [], Element ''revision'' ''12'' [],
           Element ''isactive'' ''0'' [], Element ''verified'' ''0'' [],
           Element ''review'' ''0'' [], Element ''revisionnotes'' [] []],
        Element ''function'' []
          [Element ''pui'' ''{FUNC1}'' [], Element ''dui'' ''{FUNC2}'' [],
           Element ''sequence'' ''0'' [], Element ''functionname'' ''Test Function'' [],
           Element ''modifier'' [] [], Element ''properties'' [] [], Element ''format'' [] [],
           Element ''isoutput'' ''1'' [], Element ''noteidlist'' [] [],
           Element ''verified'' ''0'' [], Element ''review'' ''0'' []]]"

declare showNat.simps [simp del]

section \<open>Properties of the page-mapping index\<close>

lemma setPageMapping_cases:
  "setPageMapping pui page st =
     (if js_lt page (Fin 1) then st\<lparr>console := console st @ [InvalidPageNumber page]\<rparr>
      else case pui of
        Str k \<Rightarrow> if k = [] then st\<lparr>console := console st @ [InvalidFunctionPUI]\<rparr>
                 else st\<lparr>pageMappings := (pageMappings st)(k \<mapsto> page)\<rparr>
      | _ \<Rightarrow> st\<lparr>console := console st @ [InvalidFunctionPUI]\<rparr>)"
  by (cases pui) (simp_all add: setPageMapping_def)

text \<open>
  Claim C7. If the page number is below 1, or the identifier is not a non-empty string,
  \<open>setPageMapping\<close> changes no mapping: the call only appends one warning to the
  console. The function has no throwing path, so there is no exception to model.
\<close>

theorem setPageMapping_rejects_invalid:
  assumes "js_lt p (Fin 1) \<or> \<not> (\<exists>s. pui = Str s \<and> s \<noteq> [])"
  shows "pageMappings (setPageMapping pui p st) = pageMappings st
       \<and> (\<exists>w. setPageMapping pui p st = st\<lparr>console := console st @ [w]\<rparr>)"
  using assms by (cases pui) (auto simp: setPageMapping_cases)

theorem setPageMapping_rejects_invalid_witness:
  "js_lt (Fin 0) (Fin 1)
   \<and> pageMappings (setPageMapping (Str ''{FUNC-1}'') (Fin 0)
        (setPageMapping (Str ''{FUNC-2}'') (Fin 10) initialState))
     = [''{FUNC-2}'' \<mapsto> Fin 10]"
  using setPageMapping_rejects_invalid[of "Fin 0" "Str ''{FUNC-1}''"
      "setPageMapping (Str ''{FUNC-2}'') (Fin 10) initialState"]
  by (simp add: setPageMapping_cases initialState_def)

lemma js_ge_1: "p \<noteq> NaN \<Longrightarrow> js_ge p (Fin 1) = (\<not> js_lt p (Fin 1))"
  by (cases p) (simp_all add: js_ge_def js_le_def)

lemma load_step:
  "pageNumber m \<noteq> NaN \<Longrightarrow>
   pageMappings (setPageMapping (functionPUI m) (pageNumber m) st) =
     (if passesValidation m then (case functionPUI m of Str k \<Rightarrow> (pageMappings st)(k \<mapsto> pageNumber m) | _ \<Rightarrow> pageMappings st)
      else pageMappings st)"
  by (cases "functionPUI m") (auto simp: setPageMapping_cases passesValidation_def js_ge_1)

lemma load_fold:
  "\<forall>m\<in>set ms. pageNumber m \<noteq> NaN \<Longrightarrow>
   pageMappings (foldl (\<lambda>s m. setPageMapping (functionPUI m) (pageNumber m) s) st ms) k =
     (case lastValidPage ms k of Some p \<Rightarrow> Some p | None \<Rightarrow> pageMappings st k)"
proof (induction ms arbitrary: st)
  case Nil
  then show ?case by simp
next
  case (Cons m ms)
  let ?st' = "setPageMapping (functionPUI m) (pageNumber m) st"
  from Cons.prems have nn: "pageNumber m \<noteq> NaN" and rest: "\<forall>m\<in>set ms. pageNumber m \<noteq> NaN"
    by simp_all
  have step: "pageMappings ?st' k =
      (if passesValidation m \<and> functionPUI m = Str k then Some (pageNumber m)
       else pageMappings st k)"
    unfolding load_step[OF nn]
    by (cases "functionPUI m") (auto simp: passesValidation_def)
  have "pageMappings (foldl (\<lambda>s m. setPageMapping (functionPUI m) (pageNumber m) s) st (m # ms)) k =
        (case lastValidPage ms k of Some p \<Rightarrow> Some p | None \<Rightarrow> pageMappings ?st' k)"
    using Cons.IH[OF rest, of ?st'] by simp
  also have "\<dots> = (case lastValidPage (m # ms) k of Some p \<Rightarrow> Some p | None \<Rightarrow> pageMappings st k)"
    unfolding step by (cases "lastValidPage ms k") simp_all
  finally show ?case .
qed

text \<open>
  Claim C9, as stated, fails where a list names one identifier twice: both entries pass
  validation, and the store keeps only the later one.
\<close>

theorem loadPageMappings_duplicate_counterexample:
  "passesValidation \<lparr>functionPUI = Str ''{FUNC-1}'', pageNumber = Fin 5\<rparr>
   \<and> pageMappings
        (loadPageMappings
           [\<lparr>functionPUI = Str ''{FUNC-1}'', pageNumber = Fin 5\<rparr>,
            \<lparr>functionPUI = Str ''{FUNC-1}'', pageNumber = Fin 10\<rparr>] initialState)
        ''{FUNC-1}'' \<noteq> Some (Fin 5)"
  by (simp add: passesValidation_def js_ge_def js_le_def loadPageMappings_def
      clearAllPageMappings_def setPageMapping_cases initialState_def)

text \<open>
  Claim C9, amended. For a list without NaN page numbers, \<open>loadPageMappings\<close> replaces the
  whole store: afterwards an identifier is mapped to the page number of the last entry of
  the list that carries it and passes validation, and to nothing when there is no such
  entry; no mapping from before the call survives.
\<close>

theorem loadPageMappings_last_valid:
  assumes "\<forall>m\<in>set ms. pageNumber m \<noteq> NaN"
  shows "pageMappings (loadPageMappings ms st) = lastValidPage ms"
proof
  fix k
  show "pageMappings (loadPageMappings ms st) k = lastValidPage ms k"
    unfolding loadPageMappings_def using load_fold[OF assms]
    by (simp add: clearAllPageMappings_def split: option.splits)
qed

theorem loadPageMappings_last_valid_witness:
  "pageMappings
        (loadPageMappings
           [\<lparr>functionPUI = Str ''{FUNC-1}'', pageNumber = Fin 5\<rparr>,
            \<lparr>functionPUI = Str [], pageNumber = Fin 7\<rparr>,
            \<lparr>functionPUI = Str ''{FUNC-2}'', pageNumber = Fin 0\<rparr>]
           (setPageMapping (Str ''{FUNC-OLD}'') (Fin 99) initialState))
     = [''{FUNC-1}'' \<mapsto> Fin 5]"
proof -
  let ?ms = "[\<lparr>functionPUI = Str ''{FUNC-1}'', pageNumber = Fin 5\<rparr>,
              \<lparr>functionPUI = Str [], pageNumber = Fin 7\<rparr>,
              \<lparr>functionPUI = Str ''{FUNC-2}'', pageNumber = Fin 0\<rparr>]"
  have h: "\<forall>m\<in>set ?ms. pageNumber m \<noteq> NaN" by simp
  have "lastValidPage ?ms = [''{FUNC-1}'' \<mapsto> Fin 5]"
    by (rule ext) (simp add: passesValidation_def js_ge_def js_le_def)
  with loadPageMappings_last_valid[OF h] show ?thesis by simp
qed

text \<open>
  Claim C10 fails on the code: NaN is not below 1, so the guard of \<open>setPageMapping\<close> lets
  it through. The store then holds a page number that is not at least 1, and
  \<open>getPageMapping\<close> answers null although the identifier is mapped.
\<close>

theorem setPageMapping_stores_NaN:
  "pageMappings (setPageMapping (Str ''{FUNC-1}'') NaN initialState) ''{FUNC-1}'' = Some NaN
   \<and> \<not> js_ge NaN (Fin 1)
   \<and> getPageMapping ''{FUNC-1}'' (setPageMapping (Str ''{FUNC-1}'') NaN initialState) = None"
  by (simp add: setPageMapping_cases initialState_def js_ge_def js_le_def getPageMapping_def)

theorem setPageMapping_stores_NaN_witness:
  "pageMappings (setPageMapping (Str ''{FUNC-1}'') NaN initialState) ''{FUNC-1}'' \<noteq> None
   \<and> getPageMapping ''{FUNC-1}'' (setPageMapping (Str ''{FUNC-1}'') NaN initialState) = None"
  using setPageMapping_stores_NaN by simp

text \<open>
  For every other page number the invariant does hold: with page numbers that are not NaN,
  every operation keeps all stored page numbers at least 1, and \<open>getPageMapping\<close> then
  answers with exactly what the store holds.
\<close>

lemma setPageMapping_keeps_invariant:
  assumes "page \<noteq> NaN" and "pageInvariant st"
  shows "pageInvariant (setPageMapping pui page st)"
  using assms unfolding pageInvariant_def
  by (cases pui) (auto simp: setPageMapping_cases js_ge_1)

lemma removePageMapping_keeps_invariant:
  "pageInvariant st \<Longrightarrow> pageInvariant (removePageMapping pui st)"
  by (simp add: pageInvariant_def removePageMapping_def)

lemma clearAllPageMappings_invariant: "pageInvariant (clearAllPageMappings st)"
  by (simp add: pageInvariant_def clearAllPageMappings_def)

lemma loadPageMappings_invariant:
  assumes "\<forall>m\<in>set ms. pageNumber m \<noteq> NaN"
  shows "pageInvariant (loadPageMappings ms st)"
proof -
  have "pageInvariant (foldl (\<lambda>s m. setPageMapping (functionPUI m) (pageNumber m) s) s0 ms)"
    if "pageInvariant s0" for s0
    using assms that
  proof (induction ms arbitrary: s0)
    case Nil
    then show ?case by simp
  next
    case (Cons m ms)
    then show ?case by (simp add: setPageMapping_keeps_invariant)
  qed
  then show ?thesis
    by (simp add: loadPageMappings_def clearAllPageMappings_invariant)
qed

lemma getPageMapping_exact:
  assumes "pageInvariant st"
  shows "getPageMapping pui st = pageMappings st pui"
proof (cases "pageMappings st pui")
  case None
  then show ?thesis by (simp add: getPageMapping_def)
next
  case (Some v)
  with assms have "js_ge v (Fin 1)" by (auto simp: pageInvariant_def)
  then have "truthy_number v" by (cases v) (auto simp: js_ge_def js_le_def)
  with Some show ?thesis by (simp add: getPageMapping_def)
qed

lemma est_pos_None:
  "0 < s \<Longrightarrow> estimatePageNumber (Fin (real s)) N None = Fin (1 + real s * 3)"
  by (simp add: estimatePageNumber_def)

lemma est_pos_Some:
  "0 < s \<Longrightarrow> estimatePageNumber (Fin (real s)) (Fin n) (Some (Fin T)) =
     (if T = 0 then Fin (1 + real s * 3)
      else if n = 0 then (if 0 < T then PosInf else Fin 1)
      else Fin (max 1 (1 + real s * of_int \<lfloor>T / n\<rfloor>)))"
  by (auto simp: estimatePageNumber_def Math_max_def Let_def)

lemmas est_pos = est_pos_None est_pos_Some

lemma est_ge1: "js_ge (estimatePageNumber (Fin (real s)) (Fin n) (map_option Fin t)) (Fin 1)"
proof (cases "s = 0")
  case True
  then show ?thesis by (simp add: estimatePageNumber_def js_ge_def js_le_def)
next
  case False
  then have "0 < s" by simp
  then show ?thesis
    by (cases t) (auto simp: est_pos js_ge_def js_le_def)
qed

lemma est_mono_pos:
  assumes "0 < s1" "s1 \<le> s2"
  shows "js_le (estimatePageNumber (Fin (real s1)) (Fin n) (map_option Fin t))
               (estimatePageNumber (Fin (real s2)) (Fin n) (map_option Fin t))"
proof -
  from assms have p2: "0 < s2" by simp
  have le: "real s1 \<le> real s2" using assms by simp
  show ?thesis
  proof (cases t)
    case None
    then show ?thesis using le by (simp add: est_pos assms(1) p2 js_le_def)
  next
    case (Some T)
    show ?thesis
    proof (cases "0 \<le> \<lfloor>T / n\<rfloor>")
      case True
      then have "real s1 * of_int \<lfloor>T / n\<rfloor> \<le> real s2 * of_int \<lfloor>T / n\<rfloor>"
        using le by (intro mult_right_mono) simp_all
      then show ?thesis using le Some by (simp add: est_pos assms(1) p2 js_le_def)
    next
      case False
      then have neg: "(of_int \<lfloor>T / n\<rfloor> :: real) \<le> 0" by simp
      have "real s1 * of_int \<lfloor>T / n\<rfloor> \<le> 0" "real s2 * of_int \<lfloor>T / n\<rfloor> \<le> 0"
        using neg by (simp_all add: mult_nonneg_nonpos)
      then show ?thesis using le Some by (simp add: est_pos assms(1) p2 js_le_def max_def)
    qed
  qed
qed

text \<open>
  Claim C8. Sequence index 0 is estimated on page 1 whatever the other arguments are. For a
  sequence index \<open>s\<close>, a total function count \<open>n\<close> and a total page count \<open>t\<close> that is
  known or not, the estimate is at least 1 and does not decrease when the index grows.
  A function count of zero makes the estimate infinite, which is still at least 1.
\<close>

theorem estimatePageNumber_first_and_monotone:
  "estimatePageNumber (Fin 0) N T = Fin 1
   \<and> js_ge (estimatePageNumber (Fin (real s)) (Fin n) (map_option Fin t)) (Fin 1)
   \<and> (s1 \<le> s2 \<longrightarrow>
        js_le (estimatePageNumber (Fin (real s1)) (Fin n) (map_option Fin t))
              (estimatePageNumber (Fin (real s2)) (Fin n) (map_option Fin t)))"
proof (intro conjI impI)
  show "estimatePageNumber (Fin 0) N T = Fin 1" by (simp add: estimatePageNumber_def)
  show "js_ge (estimatePageNumber (Fin (real s)) (Fin n) (map_option Fin t)) (Fin 1)"
    by (rule est_ge1)
  assume le: "s1 \<le> s2"
  show "js_le (estimatePageNumber (Fin (real s1)) (Fin n) (map_option Fin t))
              (estimatePageNumber (Fin (real s2)) (Fin n) (map_option Fin t))"
  proof (cases "s1 = 0")
    case True
    have "estimatePageNumber (Fin (real s1)) (Fin n) (map_option Fin t) = Fin 1"
      using True by (simp add: estimatePageNumber_def)
    then show ?thesis using est_ge1[of s2 n t] by (simp add: js_ge_def)
  next
    case False
    then show ?thesis using est_mono_pos[of s1 s2 n t] le by simp
  qed
qed

theorem estimatePageNumber_first_and_monotone_witness:
  "estimatePageNumber (Fin 0) (Fin 5) (Some (Fin 50)) = Fin 1
   \<and> js_ge (estimatePageNumber (Fin 2) (Fin 5) (Some (Fin 50))) (Fin 1)
   \<and> js_le (estimatePageNumber (Fin 1) (Fin 5) (Some (Fin 50)))
            (estimatePageNumber (Fin 2) (Fin 5) (Some (Fin 50)))
   \<and> estimatePageNumber (Fin 1) (Fin 5) (Some (Fin 50)) = Fin 11
   \<and> estimatePageNumber (Fin 2) (Fin 5) (Some (Fin 50)) = Fin 21"
  using estimatePageNumber_first_and_monotone[of "Fin 5" "Some (Fin 50)" 2 5 "Some 50" 1 2]
  by (simp add: estimatePageNumber_def Math_max_def)

section \<open>Properties of the identifier service\<close>

lemma hex_digits_upper:
  "list_all (\<lambda>n. isHexUpper (toUpperChar (hexDigitLower n))) [0..<16]"
  by code_simp

lemma hex_upper_digit: "n < 16 \<Longrightarrow> isHexUpper (toUpperChar (hexDigitLower n))"
  using hex_digits_upper by (simp add: list_all_iff)

lemma hex_upper_nibble [simp]: "isHexUpper (toUpperChar (hexDigitLower (nibble r i)))"
  by (rule hex_upper_digit) (simp add: nibble_def)

lemma hex_upper_variant [simp]: "isHexUpper (toUpperChar (hexDigitLower (8 + nibble r i mod 4)))"
proof (rule hex_upper_digit)
  have "nibble r i mod 4 < 4" by simp
  then show "8 + nibble r i mod 4 < 16" by arith
qed

lemma upper_lit [simp]: "toUpperChar CHR ''-'' = CHR ''-''" "toUpperChar CHR ''4'' = CHR ''4''"
  by (simp_all add: toUpperChar_def Let_def)

lemma match_chr_iff:
  "matchItems (Chr c # ps) s \<longleftrightarrow> (\<exists>ys. s = c # ys \<and> matchItems ps ys)"
  by (cases s) auto

lemma match_hex_iff:
  "matchItems (HexUpper n # ps) s \<longleftrightarrow>
     (\<exists>xs ys. s = xs @ ys \<and> length xs = n \<and> list_all isHexUpper xs \<and> matchItems ps ys)"
proof
  assume m: "matchItems (HexUpper n # ps) s"
  then have "s = take n s @ drop n s \<and> length (take n s) = n
      \<and> list_all isHexUpper (take n s) \<and> matchItems ps (drop n s)"
    by simp
  then show "\<exists>xs ys. s = xs @ ys \<and> length xs = n \<and> list_all isHexUpper xs \<and> matchItems ps ys"
    by blast
next
  assume "\<exists>xs ys. s = xs @ ys \<and> length xs = n \<and> list_all isHexUpper xs \<and> matchItems ps ys"
  then show "matchItems (HexUpper n # ps) s" by auto
qed

lemma isValid_iff_grammar: "isValidMOXUUID s \<longleftrightarrow> moxGrammar s"
proof
  assume "isValidMOXUUID s"
  then obtain g1 g2 g3 g4 g5 where
    "s = CHR ''{'' # g1 @ CHR ''-'' # g2 @ CHR ''-'' # g3 @ CHR ''-'' # g4 @ CHR ''-'' # g5 @ [CHR ''}'']"
    "length g1 = 8" "length g2 = 4" "length g3 = 4" "length g4 = 4" "length g5 = 12"
    "list_all isHexUpper g1" "list_all isHexUpper g2" "list_all isHexUpper g3"
    "list_all isHexUpper g4" "list_all isHexUpper g5"
    unfolding isValidMOXUUID_def moxPattern_def
    by (simp only: match_chr_iff match_hex_iff matchItems.simps(1)) blast
  then show "moxGrammar s"
    unfolding moxGrammar_def by (intro exI[of _ g1] exI[of _ g2] exI[of _ g3] exI[of _ g4] exI[of _ g5]) simp
next
  assume "moxGrammar s"
  then obtain g1 g2 g3 g4 g5 where
    s: "s = CHR ''{'' # g1 @ CHR ''-'' # g2 @ CHR ''-'' # g3 @ CHR ''-'' # g4 @ CHR ''-'' # g5 @ [CHR ''}'']"
    and len: "length g1 = 8" "length g2 = 4" "length g3 = 4" "length g4 = 4" "length g5 = 12"
    and hex: "list_all isHexUpper g1" "list_all isHexUpper g2" "list_all isHexUpper g3"
    "list_all isHexUpper g4" "list_all isHexUpper g5"
    unfolding moxGrammar_def by auto
  show "isValidMOXUUID s"
    unfolding isValidMOXUUID_def moxPattern_def s
    using len hex by simp
qed

lemma length_hexGroup [simp]: "length (hexGroup r i n) = n"
  by (simp add: hexGroup_def)

lemma hex_upper_group [simp]: "list_all isHexUpper (map toUpperChar (hexGroup r i n))"
  by (simp add: hexGroup_def list_all_iff)

lemma generate_valid: "isValidMOXUUID (generateMOXUUID r)"
proof -
  let ?U = "map toUpperChar"
  have "moxGrammar (generateMOXUUID r)"
    unfolding moxGrammar_def
    apply (rule exI[of _ "?U (hexGroup r 0 8)"])
    apply (rule exI[of _ "?U (hexGroup r 8 4)"])
    apply (rule exI[of _ "?U (CHR ''4'' # hexGroup r 13 3)"])
    apply (rule exI[of _ "?U (hexDigitLower (8 + nibble r 16 mod 4) # hexGroup r 17 3)"])
    apply (rule exI[of _ "?U (hexGroup r 20 12)"])
    apply (simp add: generateMOXUUID_def randomUUID_def toUpperCase_def isHexUpper_def[of "CHR ''4''"])
    done
  then show ?thesis by (simp add: isValid_iff_grammar)
qed

lemma valid_length: "isValidMOXUUID s \<Longrightarrow> length s = 38"
  by (auto simp: isValid_iff_grammar moxGrammar_def)

lemma valid_braces: "isValidMOXUUID s \<Longrightarrow> hd s = CHR ''{'' \<and> last s = CHR ''}''"
  by (auto simp: isValid_iff_grammar moxGrammar_def)

lemma valid_chars:
  assumes "isValidMOXUUID s" and "c \<in> set s"
  shows "isHexUpper c \<or> c = CHR ''{'' \<or> c = CHR ''-'' \<or> c = CHR ''}''"
  using assms by (auto simp: isValid_iff_grammar moxGrammar_def list_all_iff)

lemma null_uuid_valid: "isValidMOXUUID generateNullUUID"
  by code_simp

text \<open>
  Claim C4. Whatever the random bits, the identifier that \<open>generateMOXUUID\<close> builds is
  accepted by \<open>isValidMOXUUID\<close>. The strings accepted are exactly an opening brace, five
  groups of 8, 4, 4, 4 and 12 characters from \<open>0-9A-F\<close> separated by hyphens, and a
  closing brace; so a string with a brace missing, with a lowercase hexadecimal letter, or
  of another length than 38 is rejected.
\<close>

theorem isValidMOXUUID_grammar:
  "isValidMOXUUID (generateMOXUUID r)
   \<and> (isValidMOXUUID s \<longleftrightarrow> moxGrammar s)
   \<and> (hd s \<noteq> CHR ''{'' \<or> last s \<noteq> CHR ''}'' \<longrightarrow> \<not> isValidMOXUUID s)
   \<and> ((\<exists>c\<in>set s. c \<in> set ''abcdef'') \<longrightarrow> \<not> isValidMOXUUID s)
   \<and> (length s \<noteq> 38 \<longrightarrow> \<not> isValidMOXUUID s)"
proof (intro conjI impI)
  show "isValidMOXUUID (generateMOXUUID r)" by (rule generate_valid)
  show "isValidMOXUUID s \<longleftrightarrow> moxGrammar s" by (rule isValid_iff_grammar)
  show "\<not> isValidMOXUUID s" if "hd s \<noteq> CHR ''{'' \<or> last s \<noteq> CHR ''}''"
    using that valid_braces by blast
  show "\<not> isValidMOXUUID s" if "\<exists>c\<in>set s. c \<in> set ''abcdef''"
  proof
    assume v: "isValidMOXUUID s"
    from that obtain c where c: "c \<in> set s" "c \<in> set ''abcdef''" by blast
    from valid_chars[OF v c(1)] c(2) show False by (auto simp: isHexUpper_def)
  qed
  show "\<not> isValidMOXUUID s" if "length s \<noteq> 38"
    using that valid_length by blast
qed

theorem isValidMOXUUID_grammar_witness:
  "isValidMOXUUID (generateMOXUUID 0)
   \<and> generateMOXUUID 0 = ''{00000000-0000-4000-8000-000000000000}''
   \<and> hd ''909a9194-0f64-457a-b5c4-04ba19963eb1'' \<noteq> CHR ''{''
   \<and> (\<exists>c\<in>set ''909a9194-0f64-457a-b5c4-04ba19963eb1''. c \<in> set ''abcdef'')
   \<and> length ''909a9194-0f64-457a-b5c4-04ba19963eb1'' \<noteq> 38
   \<and> \<not> isValidMOXUUID ''909a9194-0f64-457a-b5c4-04ba19963eb1''
   \<and> \<not> moxGrammar ''909a9194-0f64-457a-b5c4-04ba19963eb1''"
proof -
  have g: "generateMOXUUID 0 = ''{00000000-0000-4000-8000-000000000000}''"
    by (simp add: generateMOXUUID_def randomUUID_def toUpperCase_def hexGroup_def nibble_def
        hexDigitLower_def toUpperChar_def upt_rec)
  show ?thesis
    using isValidMOXUUID_grammar[of 0 "''909a9194-0f64-457a-b5c4-04ba19963eb1''"] g by auto
qed

section \<open>Properties of the line indexer\<close>

lemma sorted_lines_less:
  assumes "sorted_wrt (<) (map lineNumber xs)" "a < b" "b < length xs"
  shows "lineNumber (xs ! a) < lineNumber (xs ! b)"
  using sorted_wrt_nth_less[OF assms(1), of a b] assms(2,3) by simp

lemma sorted_lines_mono:
  assumes "sorted_wrt (<) (map lineNumber xs)" "a < length xs" "b < length xs"
    "lineNumber (xs ! a) \<le> lineNumber (xs ! b)"
  shows "a \<le> b"
proof (rule ccontr)
  assume "\<not> a \<le> b"
  then have "b < a" by simp
  from sorted_lines_less[OF assms(1) this assms(2)] assms(4) show False by simp
qed

lemma binarySearch_found:
  "sorted_wrt (<) (map lineNumber xs) \<Longrightarrow> 0 \<le> left \<Longrightarrow> right < int (length xs) \<Longrightarrow>
   left \<le> int i \<Longrightarrow> int i \<le> right \<Longrightarrow> L = Fin (real (lineNumber (xs ! i))) \<Longrightarrow>
   binarySearch xs L left right = Inr (Some (xs ! i))"
proof (induction xs L left right rule: binarySearch.induct)
  case (1 xs L left right)
  let ?mid = "(left + right) div 2"
  note srt = "1.prems"(1)
  from "1.prems" have lr: "left \<le> right" by simp
  from "1.prems" lr have mid: "0 \<le> ?mid" "?mid < int (length xs)" "left \<le> ?mid" "?mid \<le> right"
    by simp_all
  from "1.prems" have i: "i < length xs" by simp
  have m: "nat ?mid < length xs" using mid by simp
  have rng: "\<not> (?mid < 0 \<or> int (length xs) \<le> ?mid)" using mid by simp
  consider (eq) "lineNumber (xs ! nat ?mid) = lineNumber (xs ! i)"
    | (lt) "lineNumber (xs ! nat ?mid) < lineNumber (xs ! i)"
    | (gt) "lineNumber (xs ! i) < lineNumber (xs ! nat ?mid)"
    by linarith
  then show ?case
  proof cases
    case eq
    have "nat ?mid \<le> i" "i \<le> nat ?mid"
      using sorted_lines_mono[OF srt m i] sorted_lines_mono[OF srt i m] eq
      by simp_all
    then have "nat ?mid = i" by simp
    then show ?thesis
      using lr mid "1.prems"(6) by (subst binarySearch.simps) (simp add: Let_def)
  next
    case lt
    have "nat ?mid \<le> i" using sorted_lines_mono[OF srt m i] lt by simp
    moreover have "nat ?mid \<noteq> i" using lt by auto
    ultimately have ge: "?mid + 1 \<le> int i" by linarith
    have ne: "Fin (real (lineNumber (xs ! nat ?mid))) \<noteq> L" using lt "1.prems"(6) by simp
    have jl: "js_lt (Fin (real (lineNumber (xs ! nat ?mid)))) L" using lt "1.prems"(6) by simp
    have "0 \<le> ?mid + 1" using mid by simp
    from "1.IH"(1)[OF lr refl rng refl ne jl srt this "1.prems"(3) ge "1.prems"(5,6)]
    show ?thesis
      using lr rng ne jl by (subst binarySearch.simps) (simp add: Let_def)
  next
    case gt
    have "i \<le> nat ?mid" using sorted_lines_mono[OF srt i m] gt by simp
    moreover have "nat ?mid \<noteq> i" using gt by auto
    ultimately have le: "int i \<le> ?mid - 1" by linarith
    have r: "?mid - 1 < int (length xs)" using mid by simp
    have ne: "Fin (real (lineNumber (xs ! nat ?mid))) \<noteq> L" using gt "1.prems"(6) by simp
    have jl: "\<not> js_lt (Fin (real (lineNumber (xs ! nat ?mid)))) L" using gt "1.prems"(6) by simp
    from "1.IH"(2)[OF lr refl rng refl ne jl srt "1.prems"(2) r "1.prems"(4) le "1.prems"(6)]
    show ?thesis
      using lr rng ne jl by (subst binarySearch.simps) (simp add: Let_def)
  qed
qed

lemma binarySearch_absent:
  "0 \<le> left \<Longrightarrow> right < int (length xs) \<Longrightarrow>
   \<forall>e\<in>set xs. Fin (real (lineNumber e)) \<noteq> L \<Longrightarrow>
   binarySearch xs L left right = Inr None"
proof (induction xs L left right rule: binarySearch.induct)
  case (1 xs L left right)
  let ?mid = "(left + right) div 2"
  show ?case
  proof (cases "left \<le> right")
    case False
    then show ?thesis by (subst binarySearch.simps) simp
  next
    case lr: True
    from "1.prems" lr have mid: "0 \<le> ?mid" "?mid < int (length xs)" "left \<le> ?mid" "?mid \<le> right"
      by simp_all
    have rng: "\<not> (?mid < 0 \<or> int (length xs) \<le> ?mid)" using mid by simp
    have "xs ! nat ?mid \<in> set xs" using mid by simp
    then have ne: "Fin (real (lineNumber (xs ! nat ?mid))) \<noteq> L" using "1.prems"(3) by blast
    show ?thesis
    proof (cases "js_lt (Fin (real (lineNumber (xs ! nat ?mid)))) L")
      case jl: True
      have "0 \<le> ?mid + 1" using mid by simp
      from "1.IH"(1)[OF lr refl rng refl ne jl this "1.prems"(2,3)]
      show ?thesis using lr rng ne jl by (subst binarySearch.simps) (simp add: Let_def)
    next
      case jl: False
      have "?mid - 1 < int (length xs)" using mid by simp
      from "1.IH"(2)[OF lr refl rng refl ne jl "1.prems"(1) this "1.prems"(3)]
      show ?thesis using lr rng ne jl by (subst binarySearch.simps) (simp add: Let_def)
    qed
  qed
qed

lemma splitLines_step:
  "s \<noteq> [] \<Longrightarrow>
   splitLines s = takeWhile (\<lambda>x. x \<noteq> CHR 0x0A) s
                  # splitLines (drop (Suc (length (takeWhile (\<lambda>x. x \<noteq> CHR 0x0A) s))) s)"
proof (induction s)
  case Nil
  then show ?case by simp
next
  case (Cons c cs)
  show ?case
  proof (cases "c = CHR 0x0A")
    case True
    then show ?thesis by simp
  next
    case False
    show ?thesis
    proof (cases cs)
      case Nil
      then show ?thesis using False by simp
    next
      case (Cons d ds)
      then have "cs \<noteq> []" by simp
      from Cons.IH[OF this] False show ?thesis by simp
    qed
  qed
qed

lemma scanLines_refines:
  "scanLines s pos n acc = acc @ indexStripped (map stripCR (splitLines (drop pos s))) n"
proof (induction s pos n acc rule: scanLines.induct)
  case (1 s pos n acc)
  show ?case
  proof (cases "pos < length s")
    case False
    then show ?thesis by (subst scanLines.simps) simp
  next
    case True
    let ?rest = "drop pos s"
    let ?k = "length (takeWhile (\<lambda>x. x \<noteq> CHR 0x0A) ?rest)"
    let ?end = "case indexOf s CHR 0x0A pos of None \<Rightarrow> length s | Some p \<Rightarrow> p"
    let ?raw = "substring s pos ?end"
    let ?line = "if endsWith ?raw CHR 0x0D then butlast ?raw else ?raw"
    let ?acc' = "case regexMatch ?line 0 of
                  Some (index, body) \<Rightarrow>
                    acc @ [\<lparr>name = trim body, lineNumber = n, columnStart = index\<rparr>]
                | None \<Rightarrow> acc"
    have ne: "?rest \<noteq> []" using True by simp
    have kle: "?k \<le> length ?rest" by (rule length_takeWhile_le)
    have line0: "?raw = takeWhile (\<lambda>x. x \<noteq> CHR 0x0A) ?rest"
    proof (cases "pos + ?k < length s")
      case True
      then have "?raw = take ?k ?rest" by (simp add: indexOf_def substring_def Let_def)
      also have "\<dots> = takeWhile (\<lambda>x. x \<noteq> CHR 0x0A) ?rest"
        by (metis append_eq_conv_conj takeWhile_dropWhile_id)
      finally show ?thesis .
    next
      case False
      with kle have k: "?k = length ?rest" by simp
      then have all: "takeWhile (\<lambda>x. x \<noteq> CHR 0x0A) ?rest = ?rest"
        by (metis append_eq_conv_conj take_all_iff order_refl takeWhile_dropWhile_id)
      from False have r: "?raw = ?rest" by (simp add: indexOf_def substring_def Let_def)
      show ?thesis by (simp only: r all)
    qed
    have next_drop: "drop (?end + 1) s = drop (Suc ?k) ?rest"
    proof (cases "pos + ?k < length s")
      case True
      then show ?thesis by (simp add: indexOf_def Let_def add.commute)
    next
      case False
      with kle have k: "?k = length ?rest" by simp
      from False show ?thesis by (simp add: indexOf_def Let_def k)
    qed
    have "scanLines s pos n acc = scanLines s (?end + 1) (n + 1) ?acc'"
      using True by (subst scanLines.simps) (simp add: Let_def)
    also have "\<dots> = ?acc' @ indexStripped (map stripCR (splitLines (drop (?end + 1) s))) (n + 1)"
      by (rule "1.IH"[OF True refl refl refl refl])
    also have "\<dots> = acc @ indexStripped (map stripCR (splitLines ?rest)) n"
      unfolding next_drop splitLines_step[OF ne] line0
      by (simp add: stripCR_def split: option.splits)
    finally show ?thesis .
  qed
qed

lemma extract_refines: "extractFunctionLineNumbers s = indexLines s"
  by (simp add: extractFunctionLineNumbers_def indexLines_def scanLines_refines)

lemma indexStripped_sorted:
  "sorted_wrt (<) (map lineNumber (indexStripped ls n)) \<and> (\<forall>e\<in>set (indexStripped ls n). n \<le> lineNumber e)"
proof (induction ls arbitrary: n)
  case Nil
  then show ?case by simp
next
  case (Cons l ls)
  from Cons.IH[of "Suc n"] show ?case
    by (auto simp: sorted_wrt_append split: option.splits)
qed

lemma extract_sorted: "sorted_wrt (<) (map lineNumber (extractFunctionLineNumbers s))"
  by (simp add: extract_refines indexLines_def indexStripped_sorted)









lemma sample_index:
  "extractFunctionLineNumbers sampleDocument =
     [\<lparr>name = ''DC Voltage'', lineNumber = 2, columnStart = 2\<rparr>,
      \<lparr>name = ''Resistance'', lineNumber = 4, columnStart = 0\<rparr>]"
  by code_simp

text \<open>
  Claim C2. In the index built from any text the line numbers increase strictly. The
  binary search returns the entry of a line number that occurs in the index, and null for
  a number (of any kind, NaN and the infinities included) that is the line number of no
  entry; it never reads outside the index.
\<close>

theorem findFunctionByLineNumber_correct:
  "sorted_wrt (<) (map lineNumber (extractFunctionLineNumbers s))
   \<and> (\<forall>e\<in>set (extractFunctionLineNumbers s).
        findFunctionByLineNumber (extractFunctionLineNumbers s) (Fin (real (lineNumber e)))
          = Inr (Some e))
   \<and> ((\<forall>e\<in>set (extractFunctionLineNumbers s). Fin (real (lineNumber e)) \<noteq> L) \<longrightarrow>
        findFunctionByLineNumber (extractFunctionLineNumbers s) L = Inr None)"
proof (intro conjI ballI impI)
  let ?xs = "extractFunctionLineNumbers s"
  show srt: "sorted_wrt (<) (map lineNumber ?xs)" by (rule extract_sorted)
  show "findFunctionByLineNumber ?xs (Fin (real (lineNumber e))) = Inr (Some e)"
    if "e \<in> set ?xs" for e
  proof -
    from that obtain i where i: "i < length ?xs" "?xs ! i = e"
      by (auto simp: in_set_conv_nth)
    have "binarySearch ?xs (Fin (real (lineNumber (?xs ! i)))) 0 (int (length ?xs) - 1)
            = Inr (Some (?xs ! i))"
      using i(1) by (intro binarySearch_found[OF srt]) simp_all
    then show ?thesis by (simp add: findFunctionByLineNumber_def i(2))
  qed
  show "findFunctionByLineNumber ?xs L = Inr None"
    if "\<forall>e\<in>set ?xs. Fin (real (lineNumber e)) \<noteq> L"
    unfolding findFunctionByLineNumber_def
    using that by (intro binarySearch_absent) simp_all
qed

theorem findFunctionByLineNumber_correct_witness:
  "sorted_wrt (<) (map lineNumber (extractFunctionLineNumbers sampleDocument))
   \<and> findFunctionByLineNumber (extractFunctionLineNumbers sampleDocument) (Fin 4)
       = Inr (Some \<lparr>name = ''Resistance'', lineNumber = 4, columnStart = 0\<rparr>)
   \<and> findFunctionByLineNumber (extractFunctionLineNumbers sampleDocument) (Fin 3) = Inr None"
  using findFunctionByLineNumber_correct[of sampleDocument "Fin 3"]
  by (simp add: sample_index)













lemma takeWhile_white:
  "list_all P a \<Longrightarrow> r = [] \<or> \<not> P (hd r) \<Longrightarrow> takeWhile P (a @ r) = a"
  by (induction a) (auto simp: takeWhile_eq_Nil_iff)

lemma dropWhile_white:
  "list_all P a \<Longrightarrow> r = [] \<or> \<not> P (hd r) \<Longrightarrow> dropWhile P (a @ r) = r"
  by (induction a) (auto simp: dropWhile_eq_self_iff)

lemma isTrimOf_unique:
  assumes "isTrimOf s u"
  shows "u = trim s"
proof -
  from assms obtain a b where s: "s = a @ u @ b" and a: "list_all isWhiteSpace a"
    and b: "list_all isWhiteSpace b"
    and u: "u = [] \<or> (\<not> isWhiteSpace (hd u) \<and> \<not> isWhiteSpace (last u))"
    unfolding isTrimOf_def by blast
  show ?thesis
  proof (cases "u = []")
    case True
    then have "list_all isWhiteSpace s" using s a b by simp
    then have d: "dropWhile isWhiteSpace s = []" by (simp add: list_all_iff dropWhile_eq_Nil_conv)
    show ?thesis unfolding trim_def d True by simp
  next
    case False
    with u have hd: "\<not> isWhiteSpace (hd u)" and lst: "\<not> isWhiteSpace (last u)" by simp_all
    have "hd (u @ b) = hd u" using False by simp
    then have d1: "dropWhile isWhiteSpace s = u @ b"
      unfolding s using dropWhile_white[OF a, of "u @ b"] hd False by simp
    have rb: "list_all isWhiteSpace (rev b)" using b by (simp add: list_all_iff)
    have "hd (rev u) = last u" using False by (simp add: hd_rev)
    then have "dropWhile isWhiteSpace (rev b @ rev u) = rev u"
      using dropWhile_white[OF rb, of "rev u"] lst False by simp
    then show ?thesis by (simp add: trim_def d1)
  qed
qed

lemma empty_name_not_indexed:
  "extractFunctionLineNumbers ''<functionname></functionname>'' = []"
  by code_simp




section \<open>Properties of the template engine\<close>

lemma getProp_readProp: "nonNull obj \<Longrightarrow> getProp obj k = Some (readProp obj k)"
  by (cases obj) (simp_all add: nonNull_def readProp_def)

lemma getProp_None: "\<not> nonNull obj \<Longrightarrow> getProp obj k = None"
  by (cases obj) (simp_all add: nonNull_def)

lemma pick_nonNull: "nonNull obj \<Longrightarrow> pick obj ks = Some (map (\<lambda>k. (k, readProp obj k)) ks)"
  by (induction ks) (simp_all add: getProp_readProp)

lemma pick_None: "\<not> nonNull obj \<Longrightarrow> ks \<noteq> [] \<Longrightarrow> pick obj ks = None"
  by (cases ks) (simp_all add: getProp_None)

lemma map_of_copied:
  "map_of (map (\<lambda>k. (k, g k)) ks @ rest) k = (if k \<in> set ks then Some (g k) else map_of rest k)"
  by (induction ks) auto

lemma readProp_copied:
  "readProp (Obj (map (\<lambda>k. (k, g k)) ks @ rest)) k =
     (if k \<in> set ks then g k else readProp (Obj rest) k)"
  by (simp add: readProp_def map_of_copied del: map_of_append)

lemma keysOf_copied: "keysOf (Obj (map (\<lambda>k. (k, g k)) ks @ rest)) = ks @ map fst rest"
  by (simp add: keysOf_def comp_def)

lemma mapThrowing_Some:
  "list_all (\<lambda>x. f x \<noteq> None) xs \<Longrightarrow> mapThrowing f xs = Some (map (\<lambda>x. the (f x)) xs)"
  by (induction xs) auto

lemma extractSpecification_shaped:
  "nonNull s \<Longrightarrow> extractSpecificationTemplate s
     = Some (Obj (map (\<lambda>k. (k, readProp s k)) specificationFields))"
  by (simp add: extractSpecificationTemplate_def pick_nonNull)

lemma extractParameter_shaped:
  "nonNull p \<Longrightarrow> extractParameterTemplate p
     = Some (Obj (map (\<lambda>k. (k, readProp p k)) parameterFields))"
  by (simp add: extractParameterTemplate_def pick_nonNull)

lemma mapThrowing_specs:
  "list_all nonNull xs \<Longrightarrow> mapThrowing extractSpecificationTemplate xs = Some (map specTemplateOf xs)"
  by (induction xs) (simp_all add: extractSpecification_shaped specTemplateOf_def)

lemma extractRange_shaped:
  assumes "shapedRange r"
  shows "extractRangeTemplate r = Some (rangeTemplateOf r)"
proof -
  from assms obtain ss where ss: "readProp r ''specifications'' = Arr ss" and nn: "list_all nonNull ss"
    and r: "nonNull r" and p: "nonNull (readProp r ''parameter'')"
    by (cases "readProp r ''specifications''") (auto simp: shapedRange_def isArr_def elems_def)
  show ?thesis
    by (simp add: extractRangeTemplate_def pick_nonNull[OF r] getProp_readProp[OF r]
        extractParameter_shaped[OF p] ss arrayMap_def mapThrowing_specs[OF nn] rangeTemplateOf_def
        elems_def)
qed

lemma mapThrowing_ranges:
  "list_all shapedRange xs \<Longrightarrow> mapThrowing extractRangeTemplate xs = Some (map rangeTemplateOf xs)"
  by (induction xs) (simp_all add: extractRange_shaped)

lemma extractFunction_shaped:
  assumes "shapedFunction f"
  shows "extractFunctionTemplate f =
     Some (Obj (map (\<lambda>k. (k, readProp f k)) functionFields
                @ [(''ranges'', Arr (map rangeTemplateOf (elems (readProp f ''ranges''))))]))"
proof -
  from assms obtain rs where rs: "readProp f ''ranges'' = Arr rs" and sh: "list_all shapedRange rs"
    and f: "nonNull f"
    by (cases "readProp f ''ranges''") (auto simp: shapedFunction_def isArr_def elems_def)
  show ?thesis
    by (simp add: extractFunctionTemplate_def pick_nonNull[OF f] getProp_readProp[OF f] rs
        arrayMap_def mapThrowing_ranges[OF sh] elems_def)
qed

lemma agreeOn_copied: "agreeOn ks (Obj (map (\<lambda>k. (k, readProp b k)) ks @ rest)) b"
  by (simp add: agreeOn_def list_all_iff readProp_copied)

lemma agreeOn_copied0: "agreeOn ks (Obj (map (\<lambda>k. (k, readProp b k)) ks)) b"
  using agreeOn_copied[of ks b "[]"] by simp

lemma readProp_rangeTemplateOf:
  "readProp (rangeTemplateOf r) ''parameter''
     = Obj (map (\<lambda>k. (k, readProp (readProp r ''parameter'') k)) parameterFields)"
  "readProp (rangeTemplateOf r) ''specifications''
     = Arr (map specTemplateOf (elems (readProp r ''specifications'')))"
  by (simp_all add: rangeTemplateOf_def readProp_copied rangeFields_def) (simp_all add: readProp_def)

lemma sameRange_template: "sameRange (rangeTemplateOf r) r"
proof -
  have "agreeOn rangeFields (rangeTemplateOf r) r"
    unfolding rangeTemplateOf_def by (rule agreeOn_copied)
  moreover have "list_all2 (agreeOn specificationFields) (map specTemplateOf ss) ss" for ss
    by (induction ss) (simp_all add: specTemplateOf_def agreeOn_copied0)
  ultimately show ?thesis
    by (simp add: sameRange_def readProp_rangeTemplateOf agreeOn_copied0 elems_def)
qed

lemma stripped_specification: "set (keysOf (specTemplateOf s)) \<inter> set strippedFields = {}"
  using keysOf_copied[of "readProp s" specificationFields "[]"]
  by (simp add: specTemplateOf_def) (simp add: specificationFields_def strippedFields_def)

lemma stripped_parameter:
  "set (keysOf (Obj (map (\<lambda>k. (k, readProp p k)) parameterFields))) \<inter> set strippedFields = {}"
  using keysOf_copied[of "readProp p" parameterFields "[]"]
  by simp (simp add: parameterFields_def strippedFields_def)

lemma stripped_range: "set (keysOf (rangeTemplateOf r)) \<inter> set strippedFields = {}"
  by (simp add: rangeTemplateOf_def keysOf_copied) (simp add: rangeFields_def strippedFields_def)

lemma stripped_range_nodes:
  "n \<in> set (rangeTemplateOf r # readProp (rangeTemplateOf r) ''parameter''
            # elems (readProp (rangeTemplateOf r) ''specifications'')) \<Longrightarrow>
   set (keysOf n) \<inter> set strippedFields = {}"
  using stripped_range[of r] stripped_parameter[of "readProp r ''parameter''"] stripped_specification
  by (auto simp: readProp_rangeTemplateOf elems_def)

text \<open>
  Claim C6. For every function entity (an object whose \<open>ranges\<close> is an array of objects,
  each with a \<open>parameter\<close> object and a \<open>specifications\<close> array of objects)
  \<open>extractFunctionTemplate\<close> returns a template. No object of the template, at the
  function, range, parameter or specification level, has a property named \<open>pui\<close>,
  \<open>dui\<close>, \<open>verified\<close>, \<open>review\<close>, \<open>noteidlist\<close>, \<open>_uiExpanded\<close> or \<open>_uiStatus\<close>,
  and every content field of every level has the value it has in the entity, with the
  ranges and specifications in the same number and order.
\<close>

theorem extractFunctionTemplate_strips:
  assumes "shapedFunction f"
  shows "\<exists>t. extractFunctionTemplate f = Some t
           \<and> (\<forall>n\<in>set (templateNodes t). set (keysOf n) \<inter> set strippedFields = {})
           \<and> sameContent t f"
proof -
  let ?rs = "elems (readProp f ''ranges'')"
  let ?t = "Obj (map (\<lambda>k. (k, readProp f k)) functionFields
                @ [(''ranges'', Arr (map rangeTemplateOf ?rs))])"
  have ex: "extractFunctionTemplate f = Some ?t"
    by (rule extractFunction_shaped[OF assms])
  have ranges: "readProp ?t ''ranges'' = Arr (map rangeTemplateOf ?rs)"
    by (simp add: readProp_copied functionFields_def) (simp add: readProp_def)
  have top: "set (keysOf ?t) \<inter> set strippedFields = {}"
    by (simp add: keysOf_copied) (simp add: functionFields_def strippedFields_def)
  have nodes: "set (keysOf n) \<inter> set strippedFields = {}" if "n \<in> set (templateNodes ?t)" for n
  proof -
    from that consider "n = ?t"
      | r where "r \<in> set ?rs"
          "n \<in> set (rangeTemplateOf r # readProp (rangeTemplateOf r) ''parameter''
                    # elems (readProp (rangeTemplateOf r) ''specifications''))"
      unfolding templateNodes_def ranges by (auto simp: elems_def)
    then show ?thesis
    proof cases
      case 1
      then show ?thesis using top by simp
    next
      case 2
      then show ?thesis using stripped_range_nodes by blast
    qed
  qed
  have "list_all2 sameRange (map rangeTemplateOf rs) rs" for rs
    by (induction rs) (simp_all add: sameRange_template)
  then have same: "sameContent ?t f"
    unfolding sameContent_def ranges by (simp add: agreeOn_copied elems_def)
  from ex nodes same show ?thesis by blast
qed

lemma shaped_testFunction: "shapedFunction testFunction"
  by (simp add: shapedFunction_def shapedRange_def testFunction_def testSpec_def readProp_def
      elems_def isArr_def nonNull_def)

theorem extractFunctionTemplate_strips_witness:
  "shapedFunction testFunction
   \<and> (\<exists>t. extractFunctionTemplate testFunction = Some t
          \<and> list_all (\<lambda>n. set (keysOf n) \<inter> set strippedFields = {}) (templateNodes t)
          \<and> sameContent t testFunction)"
  using extractFunctionTemplate_strips[OF shaped_testFunction] shaped_testFunction
  unfolding list_all_iff by blast

lemma pick_keys: "pick obj ks = Some fs \<Longrightarrow> map fst fs = ks"
  by (induction ks arbitrary: fs) (auto split: option.splits)

lemma readProp_skip:
  "k \<notin> set (map fst xs) \<Longrightarrow> readProp (Obj (xs @ ys)) k = readProp (Obj ys) k"
  by (simp add: readProp_def map_of_append map_add_def map_of_eq_None_iff[THEN iffD2] split: option.splits)

lemma readProp_Cons:
  "readProp (Obj ((k', v) # rest)) k = (if k = k' then v else readProp (Obj rest) k)"
  by (simp add: readProp_def)

lemma upt_split: "a \<le> b \<Longrightarrow> b \<le> c \<Longrightarrow> [a..<c] = [a..<b] @ [b..<c]"
  by (metis le_Suc_ex upt_add_eq_append)

lemma upt_two: "[n..<n + 2] = [n, Suc n]"
  by (simp add: upt_rec)

lemma mapMinting_identifiers:
  assumes f: "\<And>x i st y st'. f x i st = Some (y, st') \<Longrightarrow> ids y = map G [st..<st'] \<and> st \<le> st'"
  shows "mapMinting f xs i st = Some (ys, st') \<Longrightarrow>
         concat (map ids ys) = map G [st..<st'] \<and> st \<le> st'"
proof (induction xs arbitrary: i st ys st')
  case Nil
  then show ?case by simp
next
  case (Cons x xs)
  from Cons.prems obtain y st1 zs where
    fx: "f x i st = Some (y, st1)" and rest: "mapMinting f xs (Suc i) st1 = Some (zs, st')"
    and ys: "ys = y # zs"
    by (auto split: option.splits)
  from f[OF fx] have y: "ids y = map G [st..<st1]" "st \<le> st1" by simp_all
  from Cons.IH[OF rest] have zs: "concat (map ids zs) = map G [st1..<st']" "st1 \<le> st'" by simp_all
  show ?case using y zs ys by (simp add: upt_split[of st st1 st'])
qed

lemma createSpecification_identifiers:
  "createSpecificationFromTemplate gen t s st = Some (e, st') \<Longrightarrow>
   ownIdentifiers e = map (Str \<circ> gen) [st..<st'] \<and> st \<le> st'"
  by (auto simp: createSpecificationFromTemplate_def Let_def ownIdentifiers_def readProp_def upt_two
      split: option.splits)

lemma createParameter_identifiers:
  "createParameterFromTemplate gen t st = Some (e, st') \<Longrightarrow>
   ownIdentifiers e = [Str (gen st), Str (gen (Suc st))] \<and> st' = st + 2"
  by (auto simp: createParameterFromTemplate_def Let_def ownIdentifiers_def readProp_def
      split: option.splits)

lemma readProp_head:
  "readProp (Obj ((''pui'', a) # (''dui'', b) # rest)) ''pui'' = a"
  "readProp (Obj ((''pui'', a) # (''dui'', b) # rest)) ''dui'' = b"
  by (simp_all add: readProp_def)

lemma createRange_identifiers:
  assumes "createRangeFromTemplate gen t s st = Some (e, st')"
  shows "rangeIdentifiers e = map (Str \<circ> gen) [st..<st'] \<and> st \<le> st'"
proof -
  from assms obtain copied p parameter st1 sp ys where
    pk: "pick t rangeFields = Some copied"
    and cp: "createParameterFromTemplate gen p (st + 2) = Some (parameter, st1)"
    and mm: "mapMinting (\<lambda>specTemplate idx. createSpecificationFromTemplate gen specTemplate
                 (Number (Fin (real idx)))) ys 0 st1 = Some (sp, st')"
    and e: "e = Obj ([(''pui'', Str (gen st)), (''dui'', Str (gen (st + 1))), (''sequence'', s)]
                 @ copied
                 @ [(''noteidlist'', Str []), (''verified'', Bool False), (''review'', Bool False),
                    (''parameter'', parameter), (''specifications'', Arr sp)])"
    by (auto simp: createRangeFromTemplate_def Let_def arrayMapMinting_def
        split: option.splits jsval.splits)
  from createParameter_identifiers[OF cp]
  have par: "ownIdentifiers parameter = [Str (gen (st + 2)), Str (gen (st + 3))]" and st1: "st1 = st + 4"
    by (simp_all add: numeral_3_eq_3)
  from mapMinting_identifiers[where ids = ownIdentifiers and G = "Str \<circ> gen", OF _ mm]
    createSpecification_identifiers
  have specs: "concat (map ownIdentifiers sp) = map (Str \<circ> gen) [st1..<st']" and le: "st1 \<le> st'"
    by blast+
  have keys: "map fst copied = rangeFields" by (rule pick_keys[OF pk])
  have own: "ownIdentifiers e = [Str (gen st), Str (gen (st + 1))]"
    unfolding e by (simp add: ownIdentifiers_def readProp_head)
  have rd: "readProp e ''parameter'' = parameter" "readProp e ''specifications'' = Arr sp"
    unfolding e
    by (simp_all add: readProp_Cons readProp_skip keys rangeFields_def)
  have "[st..<st'] = [st, st + 1, st + 2, st + 3] @ [st1..<st']"
    using le st1 upt_split[of st "st + 4" st'] by (simp add: upt_rec[of st] upt_rec[of "Suc st"]
        upt_rec[of "Suc (Suc st)"] upt_rec[of "Suc (Suc (Suc st))"])
  then show ?thesis
    using own par specs le st1 by (simp add: rangeIdentifiers_def rd elems_def)
qed

lemma createFunction_identifiers:
  assumes "createFunctionFromTemplate gen t s st = Some (e, st')"
  shows "functionIdentifiers e = map (Str \<circ> gen) [st..<st'] \<and> st \<le> st'"
proof -
  from assms obtain copied rs ys where
    pk: "pick t functionFields = Some copied"
    and mm: "mapMinting (\<lambda>rangeTemplate idx. createRangeFromTemplate gen rangeTemplate
                 (Number (Fin (real idx)))) ys 0 (st + 2) = Some (rs, st')"
    and e: "e = Obj ([(''pui'', Str (gen st)), (''dui'', Str (gen (st + 1))), (''sequence'', s)]
                 @ copied
                 @ [(''noteidlist'', Str []), (''verified'', Bool False), (''review'', Bool False),
                    (''ranges'', Arr rs), (''_uiExpanded'', Bool False),
                    (''_uiStatus'', Str ''unreviewed'')])"
    by (auto simp: createFunctionFromTemplate_def Let_def arrayMapMinting_def
        split: option.splits jsval.splits)
  from mapMinting_identifiers[where ids = rangeIdentifiers and G = "Str \<circ> gen", OF _ mm]
    createRange_identifiers
  have ranges: "concat (map rangeIdentifiers rs) = map (Str \<circ> gen) [st + 2..<st']"
    and le: "st + 2 \<le> st'"
    by blast+
  have keys: "map fst copied = functionFields" by (rule pick_keys[OF pk])
  have own: "ownIdentifiers e = [Str (gen st), Str (gen (st + 1))]"
    unfolding e by (simp add: ownIdentifiers_def readProp_head)
  have rd: "readProp e ''ranges'' = Arr rs"
    unfolding e
    by (simp add: readProp_Cons readProp_skip keys functionFields_def)
  have "[st..<st'] = [st, st + 1] @ [st + 2..<st']"
    using le upt_split[of st "st + 2" st'] by (simp add: upt_rec[of st] upt_rec[of "Suc st"])
  then show ?thesis
    using own ranges le by (simp add: functionIdentifiers_def rd elems_def)
qed

lemma mapMinting_succeeds:
  "list_all (\<lambda>x. \<forall>i st. f x i st \<noteq> None) xs \<Longrightarrow> mapMinting f xs i st \<noteq> None"
proof (induction xs arbitrary: i st)
  case Nil
  then show ?case by simp
next
  case (Cons x xs)
  then obtain y st1 where fx: "f x i st = Some (y, st1)" by fastforce
  from Cons have "mapMinting f xs (Suc i) st1 \<noteq> None" by simp
  then show ?case using fx by (auto split: option.splits)
qed

lemma createSpecification_succeeds:
  "nonNull t \<Longrightarrow> createSpecificationFromTemplate gen t s st \<noteq> None"
  by (simp add: createSpecificationFromTemplate_def Let_def pick_nonNull)

lemma createParameter_succeeds:
  "nonNull t \<Longrightarrow> createParameterFromTemplate gen t st \<noteq> None"
  by (simp add: createParameterFromTemplate_def Let_def pick_nonNull getProp_readProp)

lemma createRange_succeeds:
  assumes "shapedRange t"
  shows "createRangeFromTemplate gen t s st \<noteq> None"
proof -
  from assms obtain ss where ss: "readProp t ''specifications'' = Arr ss" and nn: "list_all nonNull ss"
    and t: "nonNull t" and p: "nonNull (readProp t ''parameter'')"
    by (cases "readProp t ''specifications''") (auto simp: shapedRange_def isArr_def elems_def)
  obtain parameter st1 where
    cp: "createParameterFromTemplate gen (readProp t ''parameter'') (Suc (Suc st)) = Some (parameter, st1)"
    using createParameter_succeeds[OF p, of gen "Suc (Suc st)"] by fastforce
  have "list_all (\<lambda>x. \<forall>i st. createSpecificationFromTemplate gen x (Number (Fin (real i))) st \<noteq> None) ss"
    unfolding list_all_iff using nn[unfolded list_all_iff] createSpecification_succeeds by blast
  from mapMinting_succeeds[OF this, of 0 st1]
  obtain sp st2 where
    mm: "mapMinting (\<lambda>specTemplate idx. createSpecificationFromTemplate gen specTemplate
                 (Number (Fin (real idx)))) ss 0 st1 = Some (sp, st2)"
    by fastforce
  show ?thesis
    by (simp add: createRangeFromTemplate_def Let_def pick_nonNull[OF t] getProp_readProp[OF t]
        cp ss arrayMapMinting_def mm)
qed

lemma createFunction_succeeds:
  assumes "shapedFunction t"
  shows "createFunctionFromTemplate gen t s st \<noteq> None"
proof -
  from assms obtain rs where rs: "readProp t ''ranges'' = Arr rs" and sh: "list_all shapedRange rs"
    and t: "nonNull t"
    by (cases "readProp t ''ranges''") (auto simp: shapedFunction_def isArr_def elems_def)
  have "list_all (\<lambda>x. \<forall>i st. createRangeFromTemplate gen x (Number (Fin (real i))) st \<noteq> None) rs"
    unfolding list_all_iff using sh[unfolded list_all_iff] createRange_succeeds by blast
  from mapMinting_succeeds[OF this, of 0 "Suc (Suc st)"]
  obtain ys st1 where
    mm: "mapMinting (\<lambda>rangeTemplate idx. createRangeFromTemplate gen rangeTemplate
                 (Number (Fin (real idx)))) rs 0 (Suc (Suc st)) = Some (ys, st1)"
    by fastforce
  show ?thesis
    by (simp add: createFunctionFromTemplate_def Let_def pick_nonNull[OF t] getProp_readProp[OF t]
        rs arrayMapMinting_def mm)
qed

text \<open>
  Claim C5. Let the identifier generator never repeat a value. Then two instantiations of
  one template, the second starting after the first has finished, both return an entity,
  and no identifier (\<open>pui\<close> or \<open>dui\<close> of the function, of a range, of a parameter or of a
  specification) of the first entity is an identifier of the second.
\<close>

theorem createFunctionFromTemplate_disjoint:
  assumes "inj gen" and "shapedFunction template"
  shows "\<exists>e1 m1. createFunctionFromTemplate gen template s1 n1 = Some (e1, m1)
           \<and> (\<forall>n2\<ge>m1. \<exists>e2 m2. createFunctionFromTemplate gen template s2 n2 = Some (e2, m2)
                 \<and> set (functionIdentifiers e1) \<inter> set (functionIdentifiers e2) = {})"
proof -
  obtain e1 m1 where c1: "createFunctionFromTemplate gen template s1 n1 = Some (e1, m1)"
    using createFunction_succeeds[OF assms(2), of gen s1 n1] by fastforce
  from createFunction_identifiers[OF c1]
  have i1: "functionIdentifiers e1 = map (Str \<circ> gen) [n1..<m1]" by simp
  have "\<exists>e2 m2. createFunctionFromTemplate gen template s2 n2 = Some (e2, m2)
          \<and> set (functionIdentifiers e1) \<inter> set (functionIdentifiers e2) = {}"
    if le: "m1 \<le> n2" for n2
  proof -
    obtain e2 m2 where c2: "createFunctionFromTemplate gen template s2 n2 = Some (e2, m2)"
      using createFunction_succeeds[OF assms(2), of gen s2 n2] by fastforce
    from createFunction_identifiers[OF c2]
    have i2: "functionIdentifiers e2 = map (Str \<circ> gen) [n2..<m2]" by simp
    have inj: "inj (Str \<circ> gen)" using assms(1) by (auto simp: inj_def)
    have d: "{n1..<m1} \<inter> {n2..<m2} = {}" using le by auto
    have "(Str \<circ> gen) ` {n1..<m1} \<inter> (Str \<circ> gen) ` {n2..<m2}
            = (Str \<circ> gen) ` ({n1..<m1} \<inter> {n2..<m2})"
      by (rule image_Int[OF inj, symmetric])
    also have "\<dots> = {}" by (simp only: d image_empty)
    finally have "(Str \<circ> gen) ` {n1..<m1} \<inter> (Str \<circ> gen) ` {n2..<m2} = {}" .
    then have "set (functionIdentifiers e1) \<inter> set (functionIdentifiers e2) = {}"
      by (simp add: i1 i2)
    with c2 show ?thesis by blast
  qed
  with c1 show ?thesis by blast
qed

lemma inj_countingGenerator: "inj countingGenerator"
proof (rule injI)
  fix a b
  assume "countingGenerator a = countingGenerator b"
  then have "length (countingGenerator a) = length (countingGenerator b)" by simp
  then show "a = b" by (simp add: countingGenerator_def)
qed

lemma shaped_voltageDcTemplate: "shapedFunction voltageDcTemplate"
  by (simp add: shapedFunction_def shapedRange_def voltageDcTemplate_def readProp_def
      elems_def isArr_def nonNull_def)

theorem createFunctionFromTemplate_disjoint_witness:
  "inj countingGenerator \<and> shapedFunction voltageDcTemplate
   \<and> (\<exists>e1 m1 e2 m2.
          createFunctionFromTemplate countingGenerator voltageDcTemplate (Number (Fin 0)) 0
            = Some (e1, m1)
          \<and> createFunctionFromTemplate countingGenerator voltageDcTemplate (Number (Fin 1)) m1
            = Some (e2, m2)
          \<and> set (functionIdentifiers e1) \<inter> set (functionIdentifiers e2) = {})"
  using createFunctionFromTemplate_disjoint[OF inj_countingGenerator shaped_voltageDcTemplate,
      of "Number (Fin 0)" 0 "Number (Fin 1)"]
    inj_countingGenerator shaped_voltageDcTemplate
  by (meson order_refl)

section \<open>Properties of the parser and serializer\<close>

lemma named_idem: "named t (named t cs) = named t cs"
  by (simp add: named_def)

lemma childText_named: "childText t (named t cs) = childText t cs"
  by (simp add: childText_def named_idem)

lemma childElements_named: "childElements t (named t cs) = childElements t cs"
  by (simp add: childElements_def named_idem)

lemma parseField_named: "parseField c f (named (wireTag f) cs) = parseField c f cs"
  by (cases f)
     (simp_all add: childText_named childElements_named collectionElements_def named_idem
       split: option.splits)

lemma serializeField_tags: "e \<in> set (serializeField c f obj) \<Longrightarrow> tagOf e = wireTag f"
  by (cases f) (auto simp: Let_def split: option.splits)

lemma named_own: "named (wireTag f) (serializeField c f obj) = serializeField c f obj"
  unfolding named_def using serializeField_tags by (simp add: filter_id_conv)

lemma named_other: "wireTag g \<noteq> t \<Longrightarrow> named t (serializeField c g obj) = []"
  unfolding named_def using serializeField_tags by (fastforce simp: filter_empty_conv)

lemma named_other': "t \<noteq> wireTag g \<Longrightarrow> named t (serializeField c g obj) = []"
  using named_other[of g t] by simp

lemma named_append: "named t (xs @ ys) = named t xs @ named t ys"
  by (simp add: named_def)

lemma named_serializeFields:
  "f \<in> set fs \<Longrightarrow> distinct (map wireTag fs) \<Longrightarrow>
   named (wireTag f) (serializeFields c fs obj) = serializeField c f obj"
proof (induction fs)
  case Nil
  then show ?case by simp
next
  case (Cons g fs)
  show ?case
  proof (cases "f = g")
    case True
    have "named (wireTag g) (serializeFields c fs obj) = []"
      using Cons.prems(2)
    proof (induction fs)
      case Nil
      then show ?case by (simp add: named_def)
    next
      case (Cons h hs)
      then show ?case by (simp add: named_append named_other')
    qed
    then show ?thesis using True by (simp add: named_append named_own)
  next
    case False
    with Cons.prems have "f \<in> set fs" "distinct (map wireTag fs)" "wireTag g \<noteq> wireTag f"
      by (auto simp: image_iff)
    with Cons.IH show ?thesis by (simp add: named_append named_other)
  qed
qed

lemma parseFields_map: "parseFields c fs cs = map (\<lambda>f. parseField c f cs) fs"
  by (induction fs) simp_all

lemma parseField_key: "fst (parseField c f cs) = keyOf f"
  by (cases f) simp_all

lemma readProp_parsed:
  "f \<in> set fs \<Longrightarrow> distinct (map keyOf fs) \<Longrightarrow>
   readProp (Obj (parseFields c fs cs)) (keyOf f) = snd (parseField c f cs)"
proof (induction fs)
  case Nil
  then show ?case by simp
next
  case (Cons g fs)
  obtain k v where g: "parseField c g cs = (k, v)" by (cases "parseField c g cs")
  with parseField_key[of c g cs] have k: "k = keyOf g" by simp
  show ?case
  proof (cases "f = g")
    case True
    then show ?thesis using g k by (simp add: readProp_Cons)
  next
    case False
    with Cons.prems have "f \<in> set fs" "distinct (map keyOf fs)" "keyOf f \<noteq> keyOf g"
      by (auto simp: image_iff)
    with Cons.IH show ?thesis using g k by (simp add: readProp_Cons)
  qed
qed

lemma distinctFields_iff:
  "distinctFields fs \<longleftrightarrow>
     distinct (map wireTag fs) \<and> distinct (map keyOf fs) \<and> (\<forall>f\<in>set fs. distinctField f)"
  by (induction fs) auto

lemma fields_round_trip:
  assumes dist: "distinct (map wireTag fs)" "distinct (map keyOf fs)"
    and each: "\<And>f obj cs. f \<in> set fs \<Longrightarrow>
       readProp obj (keyOf f) = snd (parseField c f cs) \<Longrightarrow>
       parseField c f (serializeField c f obj) = parseField c f cs"
  shows "parseFields c fs (serializeFields c fs (Obj (parseFields c fs cs))) = parseFields c fs cs"
proof -
  let ?obj = "Obj (parseFields c fs cs)"
  have "parseField c f (serializeFields c fs ?obj) = parseField c f cs" if f: "f \<in> set fs" for f
  proof -
    have "parseField c f (serializeFields c fs ?obj)
            = parseField c f (named (wireTag f) (serializeFields c fs ?obj))"
      by (simp add: parseField_named)
    also have "\<dots> = parseField c f (serializeField c f ?obj)"
      by (simp add: named_serializeFields[OF f dist(1)])
    also have "\<dots> = parseField c f cs"
      by (rule each[OF f readProp_parsed[OF f dist(2)]])
    finally show ?thesis .
  qed
  then show ?thesis by (simp add: parseFields_map)
qed

lemma field_round_trip:
  assumes "numbersRoundTrip c"
  shows "distinctField f \<Longrightarrow> readProp obj (keyOf f) = snd (parseField c f cs) \<Longrightarrow>
         parseField c f (serializeField c f obj) = parseField c f cs"
proof (induction f arbitrary: obj cs)
  case (TextField k)
  then show ?case by (simp add: childText_def named_def textValue_def)
next
  case (OptionalTextField k)
  then show ?case by (simp add: childText_def named_def textValue_def)
next
  case (BooleanField k)
  then show ?case by (simp add: childText_def named_def booleanValue_def)
next
  case (NumberField k)
  then show ?case
    using assms by (simp add: childText_def named_def numberValue_def numbersRoundTrip_def)
next
  case (Section k fs)
  from Section.prems(1) have d: "distinct (map wireTag fs)" "distinct (map keyOf fs)"
    and sub: "\<forall>f\<in>set fs. distinctField f"
    by (simp_all add: distinctFields_iff)
  have "parseFields c fs (serializeFields c fs (Obj (parseFields c fs cs')))
          = parseFields c fs cs'" for cs'
    by (rule fields_round_trip[OF d]) (use Section.IH sub in blast)
  then show ?case using Section.prems(2) by (simp add: childElements_def named_def)
next
  case (Collection k t wrapper fs)
  from Collection.prems(1) have d: "distinct (map wireTag fs)" "distinct (map keyOf fs)"
    and sub: "\<forall>f\<in>set fs. distinctField f"
    by (simp_all add: distinctFields_iff)
  have rt: "parseFields c fs (serializeFields c fs (Obj (parseFields c fs cs')))
          = parseFields c fs cs'" for cs'
    by (rule fields_round_trip[OF d]) (use Collection.IH sub in blast)
  let ?es = "collectionElements t wrapper cs"
  let ?items = "map (\<lambda>e. Element t [] (serializeFields c fs e))
                  (map (\<lambda>e. Obj (parseFields c fs (childrenOf e))) ?es)"
  have items: "collectionElements t wrapper (serializeField c (Collection k t wrapper fs) obj) = ?items"
    using Collection.prems(2)
    by (cases wrapper)
       (simp_all add: collectionElements_def childElements_def named_def elems_def Let_def
         filter_id_conv)
  show ?case
    by (simp only: parseField.simps items) (simp add: rt comp_def)
qed

lemma digitValue_digitChar: "d < 10 \<Longrightarrow> digitValue (digitChar d) = Some d"
proof -
  have "list_all (\<lambda>d. digitValue (digitChar d) = Some d) [0..<10]" by code_simp
  then show "d < 10 \<Longrightarrow> digitValue (digitChar d) = Some d" by (simp add: list_all_iff)
qed

lemma readDigits_append:
  "readDigits start (xs @ ys) = readDigits (readDigits start xs) ys"
  by (simp add: readDigits_def)

lemma readDigits_showNat: "readDigits (Some 0) (showNat n) = Some n"
proof (induction n rule: showNat.induct)
  case (1 n)
  show ?case
  proof (cases "n < 10")
    case True
    then show ?thesis
      by (subst showNat.simps) (simp add: readDigits_def digitValue_digitChar)
  next
    case False
    have "readDigits (Some 0) (showNat n)
            = readDigits (readDigits (Some 0) (showNat (n div 10))) [digitChar (n mod 10)]"
      using False by (subst showNat.simps) (simp add: readDigits_append)
    also have "\<dots> = readDigits (Some (n div 10)) [digitChar (n mod 10)]"
      using "1.IH"[OF False] by simp
    also have "\<dots> = Some n"
      by (simp add: readDigits_def digitValue_digitChar)
    finally show ?thesis .
  qed
qed

lemma showNat_nonempty: "showNat n \<noteq> []"
  by (subst showNat.simps) simp

lemma numbersRoundTrip_decimalCodec: "numbersRoundTrip decimalCodec"
proof -
  have nan: "readDigits (Some 0) ''NaN'' = None"
    by (simp add: readDigits_def digitValue_def)
  have fin: "decodeNumber decimalCodec (encodeNumber decimalCodec (Fin (real n))) = Fin (real n)" for n
    by (simp add: decimalCodec_def showNat_nonempty readDigits_showNat)
  have "decodeNumber decimalCodec (encodeNumber decimalCodec NaN) = NaN"
    by (simp add: decimalCodec_def nan)
  moreover have "decodeNumber decimalCodec s = NaN \<or> (\<exists>n. decodeNumber decimalCodec s = Fin (real n))" for s
    by (cases "readDigits (Some 0) s") (auto simp: decimalCodec_def intro: exI[of _ 0])
  ultimately show ?thesis
    unfolding numbersRoundTrip_def using fin by metis
qed

text \<open>
  Claim C1. For a schema whose fields have distinct names and tags at every level, and a
  number conversion that reproduces every number it has decoded, a document that the
  parser accepts gives, when the tree is serialized and parsed again, the same tree; so
  the identifiers listed in document order are the same too.
\<close>

theorem parse_serialize_parse:
  assumes "distinctFields instrumentFields" and "numbersRoundTrip c"
    and "parseMSFXML c instrumentFields x = Inr t"
  shows "parseMSFXML c instrumentFields (serializeMSFToXML c instrumentFields t) = Inr t
       \<and> map_sum id extractAllUUIDs
             (parseMSFXML c instrumentFields (serializeMSFToXML c instrumentFields t))
           = Inr (extractAllUUIDs t)"
proof -
  let ?fs = instrumentFields
  from assms(3) have t: "t = Obj [(''instrument'', Obj (parseFields c ?fs (childrenOf x)))]"
    by (simp add: parseMSFXML_def split: if_splits)
  from assms(1) have d: "distinct (map wireTag ?fs)" "distinct (map keyOf ?fs)"
    and sub: "\<forall>f\<in>set ?fs. distinctField f"
    by (simp_all add: distinctFields_iff)
  have "parseFields c ?fs (serializeFields c ?fs (Obj (parseFields c ?fs (childrenOf x))))
          = parseFields c ?fs (childrenOf x)"
    by (rule fields_round_trip[OF d]) (use field_round_trip[OF assms(2)] sub in blast)
  then have "parseMSFXML c ?fs (serializeMSFToXML c ?fs t) = Inr t"
    by (simp add: parseMSFXML_def serializeMSFToXML_def t readProp_Cons)
  then show ?thesis by simp
qed

lemma sample_parse:
  "map_sum id extractAllUUIDs (parseMSFXML decimalCodec sampleFields sampleInstrument)
     = Inr [''{TEST1}'', ''{TEST2}'', ''{HEADER1}'', ''{HEADER2}'', ''{FUNC1}'', ''{FUNC2}'']"
  by code_simp

theorem parse_serialize_parse_witness:
  "distinctFields sampleFields \<and> numbersRoundTrip decimalCodec
   \<and> (\<exists>t. parseMSFXML decimalCodec sampleFields sampleInstrument = Inr t
          \<and> parseMSFXML decimalCodec sampleFields (serializeMSFToXML decimalCodec sampleFields t)
              = Inr t
          \<and> map_sum id extractAllUUIDs
                (parseMSFXML decimalCodec sampleFields
                   (serializeMSFToXML decimalCodec sampleFields t))
              = Inr [''{TEST1}'', ''{TEST2}'', ''{HEADER1}'', ''{HEADER2}'', ''{FUNC1}'', ''{FUNC2}''])"
proof -
  have d: "distinctFields sampleFields" by (simp add: sampleFields_def)
  obtain t where t: "parseMSFXML decimalCodec sampleFields sampleInstrument = Inr t"
    by (simp add: parseMSFXML_def sampleInstrument_def)
  from sample_parse t have ids:
    "extractAllUUIDs t = [''{TEST1}'', ''{TEST2}'', ''{HEADER1}'', ''{HEADER2}'', ''{FUNC1}'', ''{FUNC2}'']"
    by simp
  from parse_serialize_parse[OF d numbersRoundTrip_decimalCodec t] d numbersRoundTrip_decimalCodec t ids
  show ?thesis by simp
qed

end
